theory Spec2Isabelle
  imports Complex_Main
begin

section \<open>Plain LRU cache (RainLru.h)\<close>

text \<open>
  A node of the recency list: \<open>LruNode\<close> with its three data fields. The constructor
  sets \<open>accessCount_\<close> to 1. The link fields \<open>next_\<close> and \<open>prev_\<close> are represented by
  the position of the node in the list below.
\<close>

record ('k, 'v) LruNode =
  lru_key :: 'k
  lru_value :: 'v
  lru_accessCount :: nat

definition new_LruNode :: "'k \<Rightarrow> 'v \<Rightarrow> ('k, 'v) LruNode" where
  "new_LruNode k v = \<lparr>lru_key = k, lru_value = v, lru_accessCount = 1\<rparr>"

text \<open>
  The cache: \<open>capacity_\<close> (a C++ \<open>int\<close>) and the chain of nodes between \<open>dummyHead_\<close>
  and \<open>dummyTail_\<close>, written from the head side to the tail side, so the head of the
  list is the least recently used node and the last element the most recent one.
  \<open>nodeMap_\<close> maps a key to its node in that chain; the code inserts into and erases
  from the map and the chain together, so the map is the lookup \<open>findNode\<close> in the chain.
\<close>

record ('k, 'v) RainLru =
  lru_capacity :: int
  lru_nodes :: "('k, 'v) LruNode list"

text \<open>
  The comparisons of a \<open>size_t\<close> with an \<open>int\<close> convert the \<open>int\<close> to \<open>size_t\<close>:
  a negative value becomes \<open>2^64 + i\<close>. The \<open>size_t\<close> counters themselves (access
  counts, history counts, the capacities of the ARC halves) are natural numbers here: each
  grows by at most one per call, so none wraps before \<open>2^64\<close> calls.
\<close>

definition size_t_of_int :: "int \<Rightarrow> nat" where
  "size_t_of_int i = (if i < 0 then nat (2 ^ 64 + i) else nat i)"

definition RainLru_init :: "int \<Rightarrow> ('k, 'v) RainLru" where
  "RainLru_init c = \<lparr>lru_capacity = c, lru_nodes = []\<rparr>"

definition findNode :: "'k \<Rightarrow> ('k, 'v) LruNode list \<Rightarrow> ('k, 'v) LruNode option" where
  "findNode k ns = find (\<lambda>n. lru_key n = k) ns"

text \<open>\<open>removeNode\<close> unlinks the given node from the chain.\<close>

fun removeNode :: "('k, 'v) LruNode \<Rightarrow> ('k, 'v) LruNode list \<Rightarrow> ('k, 'v) LruNode list" where
  "removeNode n [] = []"
| "removeNode n (m # ms) = (if lru_key m = lru_key n then ms else m # removeNode n ms)"

text \<open>\<open>insertNode\<close> links the node in just before \<open>dummyTail_\<close>.\<close>

definition insertNode :: "('k, 'v) LruNode \<Rightarrow> ('k, 'v) LruNode list \<Rightarrow> ('k, 'v) LruNode list" where
  "insertNode n ns = ns @ [n]"

definition moveToMostRecent ::
  "('k, 'v) LruNode \<Rightarrow> ('k, 'v) LruNode list \<Rightarrow> ('k, 'v) LruNode list" where
  "moveToMostRecent n ns = insertNode n (removeNode n ns)"

text \<open>
  \<open>evictLeastRecent\<close> takes \<open>dummyHead_->next_\<close> out of the chain and out of the map.
  On an empty chain that node is \<open>dummyTail_\<close>, which \<open>removeNode\<close> leaves alone.
\<close>

definition evictLeastRecent :: "('k, 'v) RainLru \<Rightarrow> ('k, 'v) RainLru" where
  "evictLeastRecent s = (case lru_nodes s of [] \<Rightarrow> s | n # ns \<Rightarrow> s\<lparr>lru_nodes := ns\<rparr>)"

definition updateExistingNode ::
  "('k, 'v) RainLru \<Rightarrow> ('k, 'v) LruNode \<Rightarrow> 'v \<Rightarrow> ('k, 'v) RainLru" where
  "updateExistingNode s n v =
     s\<lparr>lru_nodes := moveToMostRecent (n\<lparr>lru_value := v\<rparr>) (lru_nodes s)\<rparr>"

definition addNewNode :: "('k, 'v) RainLru \<Rightarrow> 'k \<Rightarrow> 'v \<Rightarrow> ('k, 'v) RainLru" where
  "addNewNode s k v =
     (let s1 = (if length (lru_nodes s) \<ge> size_t_of_int (lru_capacity s)
                then evictLeastRecent s else s)
      in s1\<lparr>lru_nodes := insertNode (new_LruNode k v) (lru_nodes s1)\<rparr>)"

definition RainLru_put :: "('k, 'v) RainLru \<Rightarrow> 'k \<Rightarrow> 'v \<Rightarrow> ('k, 'v) RainLru" where
  "RainLru_put s k v =
     (if lru_capacity s \<le> 0 then s
      else case findNode k (lru_nodes s) of
             Some n \<Rightarrow> updateExistingNode s n v
           | None \<Rightarrow> addNewNode s k v)"

text \<open>
  \<open>bool get(Key, Value &)\<close>: the result is \<open>Some\<close> of the value written to the out
  parameter when the call returns true, and \<open>None\<close> when it returns false.
\<close>

definition RainLru_get :: "('k, 'v) RainLru \<Rightarrow> 'k \<Rightarrow> 'v option \<times> ('k, 'v) RainLru" where
  "RainLru_get s k =
     (case findNode k (lru_nodes s) of
        Some n \<Rightarrow> (Some (lru_value n), s\<lparr>lru_nodes := moveToMostRecent n (lru_nodes s)\<rparr>)
      | None \<Rightarrow> (None, s))"

text \<open>
  \<open>Value get(Key)\<close>: the value-initialised \<open>Value{}\<close> is the parameter \<open>dflt\<close>.
\<close>

definition RainLru_get_value :: "'v \<Rightarrow> ('k, 'v) RainLru \<Rightarrow> 'k \<Rightarrow> 'v \<times> ('k, 'v) RainLru" where
  "RainLru_get_value dflt s k =
     (case RainLru_get s k of (Some v, s') \<Rightarrow> (v, s') | (None, s') \<Rightarrow> (dflt, s'))"

definition RainLru_remove :: "('k, 'v) RainLru \<Rightarrow> 'k \<Rightarrow> ('k, 'v) RainLru" where
  "RainLru_remove s k =
     (case findNode k (lru_nodes s) of
        Some n \<Rightarrow> s\<lparr>lru_nodes := removeNode n (lru_nodes s)\<rparr>
      | None \<Rightarrow> s)"

text \<open>Sequences of calls on one cache.\<close>

datatype ('k, 'v) lru_op = LruPut 'k 'v | LruGet 'k | LruRemove 'k

fun lru_step :: "('k, 'v) RainLru \<Rightarrow> ('k, 'v) lru_op \<Rightarrow> ('k, 'v) RainLru" where
  "lru_step s (LruPut k v) = RainLru_put s k v"
| "lru_step s (LruGet k) = snd (RainLru_get s k)"
| "lru_step s (LruRemove k) = RainLru_remove s k"

definition lru_run :: "('k, 'v) RainLru \<Rightarrow> ('k, 'v) lru_op list \<Rightarrow> ('k, 'v) RainLru" where
  "lru_run s ops = foldl lru_step s ops"

section \<open>LRU-K (RainLru.h, class RainLruK)\<close>

text \<open>
  \<open>RainLruK\<close> derives from \<open>RainLru<Key, Value>\<close> (the main cache, field \<open>lruk_main\<close>)
  and owns a history cache \<open>RainLru<Key, size_t>\<close>, the threshold \<open>k_\<close> (an \<open>int\<close>)
  and the side table \<open>historyValueMap_\<close>.
\<close>

record ('k, 'v) RainLruK =
  lruk_main :: "('k, 'v) RainLru"
  historyList :: "('k, nat) RainLru"
  lruk_k :: int
  historyValueMap :: "'k \<rightharpoonup> 'v"

definition RainLruK_init :: "int \<Rightarrow> int \<Rightarrow> int \<Rightarrow> ('k, 'v) RainLruK" where
  "RainLruK_init c h k =
     \<lparr>lruk_main = RainLru_init c, historyList = RainLru_init h, lruk_k = k,
      historyValueMap = Map.empty\<rparr>"

definition RainLruK_get :: "'v \<Rightarrow> ('k, 'v) RainLruK \<Rightarrow> 'k \<Rightarrow> 'v \<times> ('k, 'v) RainLruK" where
  "RainLruK_get dflt s k =
     (let (r, m1) = RainLru_get (lruk_main s) k;
          value = (case r of Some v \<Rightarrow> v | None \<Rightarrow> dflt);
          inMainCache = (r \<noteq> None);
          (c, h1) = RainLru_get_value 0 (historyList s) k;
          historyCount = c + 1;
          h2 = RainLru_put h1 k historyCount;
          s1 = s\<lparr>lruk_main := m1, historyList := h2\<rparr>
      in if inMainCache then (value, s1)
         else if historyCount \<ge> size_t_of_int (lruk_k s) then
           (case historyValueMap s k of
              Some storedValue \<Rightarrow>
                (storedValue,
                 s1\<lparr>historyList := RainLru_remove h2 k,
                    historyValueMap := (historyValueMap s)(k := None),
                    lruk_main := RainLru_put m1 k storedValue\<rparr>)
            | None \<Rightarrow> (value, s1))
         else (value, s1))"

definition RainLruK_put :: "('k, 'v) RainLruK \<Rightarrow> 'k \<Rightarrow> 'v \<Rightarrow> ('k, 'v) RainLruK" where
  "RainLruK_put s k v =
     (let (r, m1) = RainLru_get (lruk_main s) k;
          inMainCache = (r \<noteq> None)
      in if inMainCache then s\<lparr>lruk_main := RainLru_put m1 k v\<rparr>
         else
           (let (c, h1) = RainLru_get_value 0 (historyList s) k;
                historyCount = c + 1;
                h2 = RainLru_put h1 k historyCount;
                s1 = s\<lparr>lruk_main := m1, historyList := h2,
                       historyValueMap := (historyValueMap s)(k \<mapsto> v)\<rparr>
            in if historyCount \<ge> size_t_of_int (lruk_k s) then
                 s1\<lparr>historyList := RainLru_remove h2 k,
                    historyValueMap := (historyValueMap s1)(k := None),
                    lruk_main := RainLru_put m1 k v\<rparr>
               else s1))"

text \<open>
  Both \<open>get\<close> and \<open>put\<close> read the history count of the key, increment it and store it
  back (\<open>historyList_->get(key)\<close>, \<open>historyCount++\<close>, \<open>historyList_->put(key,
  historyCount)\<close>): the incremented count and the history cache after these three lines.
\<close>

definition newHistoryCount :: "('k, 'v) RainLruK \<Rightarrow> 'k \<Rightarrow> nat" where
  "newHistoryCount s k = fst (RainLru_get_value 0 (historyList s) k) + 1"

definition recordAccess :: "('k, 'v) RainLruK \<Rightarrow> 'k \<Rightarrow> ('k, nat) RainLru" where
  "recordAccess s k =
     RainLru_put (snd (RainLru_get_value 0 (historyList s) k)) k (newHistoryCount s k)"

datatype ('k, 'v) lruk_op = KPut 'k 'v | KGet 'k

fun lruk_op_key :: "('k, 'v) lruk_op \<Rightarrow> 'k" where
  "lruk_op_key (KPut k v) = k"
| "lruk_op_key (KGet k) = k"

fun lruk_step :: "'v \<Rightarrow> ('k, 'v) RainLruK \<Rightarrow> ('k, 'v) lruk_op \<Rightarrow> ('k, 'v) RainLruK" where
  "lruk_step dflt s (KPut k v) = RainLruK_put s k v"
| "lruk_step dflt s (KGet k) = snd (RainLruK_get dflt s k)"

definition lruk_run ::
  "'v \<Rightarrow> ('k, 'v) RainLruK \<Rightarrow> ('k, 'v) lruk_op list \<Rightarrow> ('k, 'v) RainLruK" where
  "lruk_run dflt s ops = foldl (lruk_step dflt) s ops"

section \<open>Sharded LRU (RainLru.h, class RainLruHash)\<close>

text \<open>
  \<open>sliceSize = std::ceil(capacity / static_cast<double>(sliceNum_))\<close>. For a capacity
  below \<open>2^53\<close> the conversion to \<open>double\<close> is exact and the rounded quotient has the
  ceiling of the exact quotient, which is what \<open>sliceSize\<close> computes here.
\<close>

definition sliceSize :: "nat \<Rightarrow> nat \<Rightarrow> nat" where
  "sliceSize c n = (c + n - 1) div n"

text \<open>
  \<open>new RainLru<Key, Value>(sliceSize)\<close> passes a \<open>size_t\<close> where the constructor takes
  an \<open>int\<close>: the value is reduced modulo \<open>2^32\<close> into the signed range.
\<close>

definition int_of_size_t :: "nat \<Rightarrow> int" where
  "int_of_size_t n =
     (let m = int n mod 2 ^ 32 in if m < 2 ^ 31 then m else m - 2 ^ 32)"

record ('k, 'v) RainLruHash =
  hash_capacity :: nat
  sliceNum :: int
  lruSliceCaches :: "('k, 'v) RainLru list"

text \<open>
  The constructor. \<open>hw\<close> is what \<open>std::thread::hardware_concurrency()\<close> returns, used
  when the slice count given is not positive. With no slice at all the division is by
  zero and the later \<open>% sliceNum_\<close> is undefined: the result is \<open>None\<close>.
\<close>

definition RainLruHash_init :: "nat \<Rightarrow> nat \<Rightarrow> int \<Rightarrow> ('k, 'v) RainLruHash option" where
  "RainLruHash_init hw c n =
     (let sn = (if n > 0 then n else int hw)
      in if sn = 0 then None
         else Some \<lparr>hash_capacity = c, sliceNum = sn,
                    lruSliceCaches =
                      replicate (nat sn) (RainLru_init (int_of_size_t (sliceSize c (nat sn))))\<rparr>)"

text \<open>\<open>Hash\<close> is \<open>std::hash<Key>\<close>, a parameter of the model.\<close>

definition RainLruHash_put ::
  "('k \<Rightarrow> nat) \<Rightarrow> ('k, 'v) RainLruHash \<Rightarrow> 'k \<Rightarrow> 'v \<Rightarrow> ('k, 'v) RainLruHash" where
  "RainLruHash_put Hash s k v =
     (let sliceIndex = Hash k mod size_t_of_int (sliceNum s)
      in s\<lparr>lruSliceCaches :=
             (lruSliceCaches s)[sliceIndex := RainLru_put (lruSliceCaches s ! sliceIndex) k v]\<rparr>)"



definition hash_run ::
  "('k \<Rightarrow> nat) \<Rightarrow> ('k, 'v) RainLruHash \<Rightarrow> ('k \<times> 'v) list \<Rightarrow> ('k, 'v) RainLruHash" where
  "hash_run Hash s kvs = foldl (\<lambda>s (k, v). RainLruHash_put Hash s k v) s kvs"

text \<open>The number of entries resident over all slices.\<close>

definition resident :: "('k, 'v) RainLruHash \<Rightarrow> nat" where
  "resident s = sum_list (map (\<lambda>c. length (lru_nodes c)) (lruSliceCaches s))"

section \<open>ARC: the recency half (RainArc/RainArcLru.h)\<close>

text \<open>
  Modelled from the spec: \<open>RainArcNode.h\<close> is not among the sources. An entry holds
  \<open>(key, value, access_count)\<close> and a new node has access count 1.
\<close>

record ('k, 'v) ArcNode =
  arc_key :: 'k
  arc_value :: 'v
  arc_accessCount :: nat

definition new_ArcNode :: "'k \<Rightarrow> 'v \<Rightarrow> ('k, 'v) ArcNode" where
  "new_ArcNode k v = \<lparr>arc_key = k, arc_value = v, arc_accessCount = 1\<rparr>"

text \<open>
  \<open>ArcLruPart\<close>: the three \<open>size_t\<close> fields, the two chains and the ghost map. Each
  chain is written from its head sentinel to its tail sentinel, so the head of
  \<open>mainList\<close> is the most recently used node and its last element the least recent one.

  \<open>mainCache_\<close> and the main chain change together: a key is added to both only after
  \<open>mainCache_.find\<close> failed, and \<open>evictLeastRecent\<close> erases the key of the node it
  unlinks. So \<open>mainCache_\<close> is the lookup \<open>findArcNode\<close> in the main chain and
  \<open>mainCache_.size()\<close> is its length.

  \<open>ghostCache_\<close> and the ghost chain do not always change together: \<open>addToGhost\<close>
  assigns \<open>ghostCache_[key]\<close>, which replaces the entry of a key that is already a
  ghost while the older node stays linked, and \<open>removeOldestGhost\<close> erases by key. So
  the ghost map is a field of its own. An entry of the map always points to the node
  of its key nearest to the head of the chain (nodes enter at the head, are never
  moved, and the entry is erased whenever a node of its key is unlinked), which is the
  node \<open>unlinkNode\<close> takes out.
\<close>

record ('k, 'v) ArcLruPart =
  part_capacity :: nat
  ghostCapacity :: nat
  transformThreshold :: nat
  mainList :: "('k, 'v) ArcNode list"
  ghostCache :: "'k \<rightharpoonup> ('k, 'v) ArcNode"
  ghostList :: "('k, 'v) ArcNode list"

definition ArcLruPart_init :: "nat \<Rightarrow> nat \<Rightarrow> ('k, 'v) ArcLruPart" where
  "ArcLruPart_init c t =
     \<lparr>part_capacity = c, ghostCapacity = c, transformThreshold = t,
      mainList = [], ghostCache = Map.empty, ghostList = []\<rparr>"

definition findArcNode :: "'k \<Rightarrow> ('k, 'v) ArcNode list \<Rightarrow> ('k, 'v) ArcNode option" where
  "findArcNode k ns = find (\<lambda>n. arc_key n = k) ns"

text \<open>Unlinking a node that a map lookup returned (the bodies of \<open>removeFromMain\<close>,
  \<open>removeFromGhost\<close> and the first half of \<open>moveToFront\<close>).\<close>

fun unlinkNode :: "('k, 'v) ArcNode \<Rightarrow> ('k, 'v) ArcNode list \<Rightarrow> ('k, 'v) ArcNode list" where
  "unlinkNode n [] = []"
| "unlinkNode n (m # ms) = (if arc_key m = arc_key n then ms else m # unlinkNode n ms)"

definition removeFromGhost :: "('k, 'v) ArcNode \<Rightarrow> ('k, 'v) ArcLruPart \<Rightarrow> ('k, 'v) ArcLruPart" where
  "removeFromGhost n s = s\<lparr>ghostList := unlinkNode n (ghostList s)\<rparr>"

definition addToFront :: "('k, 'v) ArcNode \<Rightarrow> ('k, 'v) ArcLruPart \<Rightarrow> ('k, 'v) ArcLruPart" where
  "addToFront n s = s\<lparr>mainList := n # mainList s\<rparr>"

definition moveToFront :: "('k, 'v) ArcNode \<Rightarrow> ('k, 'v) ArcLruPart \<Rightarrow> ('k, 'v) ArcLruPart" where
  "moveToFront n s = addToFront n (s\<lparr>mainList := unlinkNode n (mainList s)\<rparr>)"

definition addToGhost :: "('k, 'v) ArcNode \<Rightarrow> ('k, 'v) ArcLruPart \<Rightarrow> ('k, 'v) ArcLruPart" where
  "addToGhost n s =
     (let n' = n\<lparr>arc_accessCount := 1\<rparr>
      in s\<lparr>ghostList := n' # ghostList s,
           ghostCache := (ghostCache s)(arc_key n' \<mapsto> n')\<rparr>)"

text \<open>\<open>removeOldestGhost\<close> unlinks \<open>ghostTail_->prev_\<close>, the last node of the chain,
  and erases that node's key from the ghost map, unless the chain is empty.\<close>

definition removeOldestGhost :: "('k, 'v) ArcLruPart \<Rightarrow> ('k, 'v) ArcLruPart" where
  "removeOldestGhost s =
     (if ghostList s = [] then s
      else
        (let oldestGhost = last (ghostList s)
         in s\<lparr>ghostList := butlast (ghostList s),
              ghostCache := (ghostCache s)(arc_key oldestGhost := None)\<rparr>))"

text \<open>\<open>evictLeastRecent\<close> moves \<open>mainTail_->prev_\<close>, the last node of the main chain,
  to the front of the ghost chain, after \<open>removeOldestGhost\<close> when the ghost map holds
  \<open>ghostCapacity_\<close> keys or more.\<close>

definition ArcLruPart_evictLeastRecent :: "('k, 'v) ArcLruPart \<Rightarrow> ('k, 'v) ArcLruPart" where
  "ArcLruPart_evictLeastRecent s =
     (if mainList s = [] then s
      else
        (let leastRecent = last (mainList s);
             s1 = s\<lparr>mainList := butlast (mainList s)\<rparr>;
             s2 = (if card (dom (ghostCache s1)) \<ge> ghostCapacity s1
                   then removeOldestGhost s1 else s1)
         in addToGhost leastRecent s2))"

definition ArcLruPart_updateExistingNode ::
  "('k, 'v) ArcLruPart \<Rightarrow> ('k, 'v) ArcNode \<Rightarrow> 'v \<Rightarrow> bool \<times> ('k, 'v) ArcLruPart" where
  "ArcLruPart_updateExistingNode s n v = (True, moveToFront (n\<lparr>arc_value := v\<rparr>) s)"

definition ArcLruPart_addNewNode ::
  "('k, 'v) ArcLruPart \<Rightarrow> 'k \<Rightarrow> 'v \<Rightarrow> bool \<times> ('k, 'v) ArcLruPart" where
  "ArcLruPart_addNewNode s k v =
     (let s1 = (if length (mainList s) \<ge> part_capacity s
                then ArcLruPart_evictLeastRecent s else s)
      in (True, addToFront (new_ArcNode k v) s1))"

definition ArcLruPart_put ::
  "('k, 'v) ArcLruPart \<Rightarrow> 'k \<Rightarrow> 'v \<Rightarrow> bool \<times> ('k, 'v) ArcLruPart" where
  "ArcLruPart_put s k v =
     (if part_capacity s = 0 then (False, s)
      else case findArcNode k (mainList s) of
             Some n \<Rightarrow> ArcLruPart_updateExistingNode s n v
           | None \<Rightarrow> ArcLruPart_addNewNode s k v)"

definition ArcLruPart_updateNodeAccess ::
  "('k, 'v) ArcLruPart \<Rightarrow> ('k, 'v) ArcNode \<Rightarrow> bool \<times> ('k, 'v) ArcLruPart" where
  "ArcLruPart_updateNodeAccess s n =
     (let n' = n\<lparr>arc_accessCount := arc_accessCount n + 1\<rparr>
      in (arc_accessCount n' \<ge> transformThreshold s, moveToFront n' s))"

text \<open>
  \<open>bool get(Key, Value &, bool &shouldTransform)\<close>: \<open>Some (value, shouldTransform)\<close>
  when the call returns true, \<open>None\<close> (both out parameters untouched) otherwise.
\<close>

definition ArcLruPart_get ::
  "('k, 'v) ArcLruPart \<Rightarrow> 'k \<Rightarrow> ('v \<times> bool) option \<times> ('k, 'v) ArcLruPart" where
  "ArcLruPart_get s k =
     (case findArcNode k (mainList s) of
        Some n \<Rightarrow>
          (let (shouldTransform, s') = ArcLruPart_updateNodeAccess s n
           in (Some (arc_value n, shouldTransform), s'))
      | None \<Rightarrow> (None, s))"

definition ArcLruPart_checkGhost ::
  "('k, 'v) ArcLruPart \<Rightarrow> 'k \<Rightarrow> bool \<times> ('k, 'v) ArcLruPart" where
  "ArcLruPart_checkGhost s k =
     (case ghostCache s k of
        Some n \<Rightarrow> (True, (removeFromGhost n s)\<lparr>ghostCache := (ghostCache s)(k := None)\<rparr>)
      | None \<Rightarrow> (False, s))"

definition ArcLruPart_increaseCapacity :: "('k, 'v) ArcLruPart \<Rightarrow> ('k, 'v) ArcLruPart" where
  "ArcLruPart_increaseCapacity s = s\<lparr>part_capacity := part_capacity s + 1\<rparr>"

definition ArcLruPart_decreaseCapacity ::
  "('k, 'v) ArcLruPart \<Rightarrow> bool \<times> ('k, 'v) ArcLruPart" where
  "ArcLruPart_decreaseCapacity s =
     (if part_capacity s \<le> 0 then (False, s)
      else
        (let s1 = (if length (mainList s) = part_capacity s
                   then ArcLruPart_evictLeastRecent s else s)
         in (True, s1\<lparr>part_capacity := part_capacity s1 - 1\<rparr>)))"

section \<open>ARC: the frequency half\<close>

text \<open>
  \<open>RainArcLfu.h\<close> is not among the sources; the frequency half is taken from the
  specification, which describes both halves as an LRU of entries with a ghost tail and
  gives one description of the half operations, with one difference: an update in the
  frequency half increments the access count. Where the specification describes a step
  once for both halves, the frequency half is given the recency half's function.
\<close>

type_synonym ('k, 'v) ArcLfuPart = "('k, 'v) ArcLruPart"

definition ArcLfuPart_init :: "nat \<Rightarrow> nat \<Rightarrow> ('k, 'v) ArcLfuPart" where
  \<comment> \<open>Modelled from the spec: the constructor of the missing \<open>ArcLfuPart\<close>; each half is
     built with live capacity \<open>C\<close> and ghost capacity \<open>C\<close>.\<close>
  "ArcLfuPart_init c t = ArcLruPart_init c t"

definition ArcLfuPart_evict :: "('k, 'v) ArcLfuPart \<Rightarrow> ('k, 'v) ArcLfuPart" where
  \<comment> \<open>Modelled from the spec: the eviction of the missing \<open>ArcLfuPart\<close>: remove the back
     live node; if the ghost is full, drop the oldest ghost key; push the evicted key onto
     the ghost front with access count reset to 1; erase from the live mapping.\<close>
  "ArcLfuPart_evict s = ArcLruPart_evictLeastRecent s"

definition ArcLfuPart_put ::
  "('k, 'v) ArcLfuPart \<Rightarrow> 'k \<Rightarrow> 'v \<Rightarrow> bool \<times> ('k, 'v) ArcLfuPart" where
  \<comment> \<open>Modelled from the spec: \<open>put\<close> of the missing \<open>ArcLfuPart\<close>. If capacity is 0,
     not inserted. If the key is live: update value, move to front, increment access
     count, report \<open>access_count \<ge> T\<close>. Otherwise evict when live size \<open>\<ge>\<close> capacity, then
     create a new node at the front with access count 1.\<close>
  "ArcLfuPart_put s k v =
     (if part_capacity s = 0 then (False, s)
      else case findArcNode k (mainList s) of
             Some n \<Rightarrow>
               (let n' = n\<lparr>arc_value := v, arc_accessCount := arc_accessCount n + 1\<rparr>
                in (arc_accessCount n' \<ge> transformThreshold s, moveToFront n' s))
           | None \<Rightarrow>
               (let s1 = (if length (mainList s) \<ge> part_capacity s
                          then ArcLfuPart_evict s else s)
                in (True, addToFront (new_ArcNode k v) s1)))"

definition ArcLfuPart_get ::
  "('k, 'v) ArcLfuPart \<Rightarrow> 'k \<Rightarrow> 'v option \<times> ('k, 'v) ArcLfuPart" where
  \<comment> \<open>Modelled from the spec: \<open>get\<close> of the missing \<open>ArcLfuPart\<close>. On a hit in the live
     list, move to the front, increment the access count, return the value.\<close>
  "ArcLfuPart_get s k =
     (case findArcNode k (mainList s) of
        Some n \<Rightarrow>
          (Some (arc_value n),
           moveToFront (n\<lparr>arc_accessCount := arc_accessCount n + 1\<rparr>) s)
      | None \<Rightarrow> (None, s))"

definition ArcLfuPart_checkGhost ::
  "('k, 'v) ArcLfuPart \<Rightarrow> 'k \<Rightarrow> bool \<times> ('k, 'v) ArcLfuPart" where
  \<comment> \<open>Modelled from the spec: \<open>checkGhost\<close> of the missing \<open>ArcLfuPart\<close>. If the key is in
     the ghost mapping, unlink and erase it from the ghost and return true; else false.\<close>
  "ArcLfuPart_checkGhost s k = ArcLruPart_checkGhost s k"

definition ArcLfuPart_increaseCapacity :: "('k, 'v) ArcLfuPart \<Rightarrow> ('k, 'v) ArcLfuPart" where
  \<comment> \<open>Modelled from the spec: \<open>increaseCapacity\<close> of the missing \<open>ArcLfuPart\<close>:
     \<open>cap += 1\<close>.\<close>
  "ArcLfuPart_increaseCapacity s = s\<lparr>part_capacity := part_capacity s + 1\<rparr>"

definition ArcLfuPart_decreaseCapacity ::
  "('k, 'v) ArcLfuPart \<Rightarrow> bool \<times> ('k, 'v) ArcLfuPart" where
  \<comment> \<open>Modelled from the spec: \<open>decreaseCapacity\<close> of the missing \<open>ArcLfuPart\<close>. If
     \<open>cap = 0\<close> return false; if live size equals \<open>cap\<close>, evict one; \<open>cap -= 1\<close>; return
     true.\<close>
  "ArcLfuPart_decreaseCapacity s =
     (if part_capacity s = 0 then (False, s)
      else
        (let s1 = (if length (mainList s) = part_capacity s then ArcLfuPart_evict s else s)
         in (True, s1\<lparr>part_capacity := part_capacity s1 - 1\<rparr>)))"

section \<open>ARC (RainArc/RainArc.h)\<close>

record ('k, 'v) RainArc =
  arc_capacity :: nat
  arc_transformThreshold :: nat
  lruPart :: "('k, 'v) ArcLruPart"
  lfuPart :: "('k, 'v) ArcLfuPart"

definition RainArc_init :: "nat \<Rightarrow> nat \<Rightarrow> ('k, 'v) RainArc" where
  "RainArc_init c t =
     \<lparr>arc_capacity = c, arc_transformThreshold = t,
      lruPart = ArcLruPart_init c t, lfuPart = ArcLfuPart_init c t\<rparr>"

definition checkGhostCaches :: "('k, 'v) RainArc \<Rightarrow> 'k \<Rightarrow> bool \<times> ('k, 'v) RainArc" where
  "checkGhostCaches s k =
     (let (inLru, r1) = ArcLruPart_checkGhost (lruPart s) k
      in if inLru then
           (let (dec, f1) = ArcLfuPart_decreaseCapacity (lfuPart s)
            in (True, s\<lparr>lruPart := (if dec then ArcLruPart_increaseCapacity r1 else r1),
                        lfuPart := f1\<rparr>))
         else
           (let (inLfu, f1) = ArcLfuPart_checkGhost (lfuPart s) k
            in if inLfu then
                 (let (dec, r2) = ArcLruPart_decreaseCapacity r1
                  in (True, s\<lparr>lruPart := r2,
                              lfuPart := (if dec then ArcLfuPart_increaseCapacity f1 else f1)\<rparr>))
               else (False, s\<lparr>lruPart := r1, lfuPart := f1\<rparr>)))"

definition RainArc_put :: "('k, 'v) RainArc \<Rightarrow> 'k \<Rightarrow> 'v \<Rightarrow> ('k, 'v) RainArc" where
  "RainArc_put s k v =
     (let (inGhost, s1) = checkGhostCaches s k
      in if \<not> inGhost then
           (let (ok, r) = ArcLruPart_put (lruPart s1) k v
            in if ok then s1\<lparr>lruPart := r, lfuPart := snd (ArcLfuPart_put (lfuPart s1) k v)\<rparr>
               else s1\<lparr>lruPart := r\<rparr>)
         else s1\<lparr>lruPart := snd (ArcLruPart_put (lruPart s1) k v)\<rparr>)"

definition RainArc_get :: "('k, 'v) RainArc \<Rightarrow> 'k \<Rightarrow> 'v option \<times> ('k, 'v) RainArc" where
  "RainArc_get s k =
     (let (inGhost, s1) = checkGhostCaches s k
      in case ArcLruPart_get (lruPart s1) k of
           (Some (value, shouldTransform), r) \<Rightarrow>
             (Some value,
              if shouldTransform
              then s1\<lparr>lruPart := r, lfuPart := snd (ArcLfuPart_put (lfuPart s1) k value)\<rparr>
              else s1\<lparr>lruPart := r\<rparr>)
         | (None, r) \<Rightarrow>
             (let (res, f) = ArcLfuPart_get (lfuPart s1) k
              in (res, s1\<lparr>lruPart := r, lfuPart := f\<rparr>)))"



datatype ('k, 'v) arc_op = ArcPut 'k 'v | ArcGet 'k

fun arc_step :: "('k, 'v) RainArc \<Rightarrow> ('k, 'v) arc_op \<Rightarrow> ('k, 'v) RainArc" where
  "arc_step s (ArcPut k v) = RainArc_put s k v"
| "arc_step s (ArcGet k) = snd (RainArc_get s k)"

definition arc_run :: "('k, 'v) RainArc \<Rightarrow> ('k, 'v) arc_op list \<Rightarrow> ('k, 'v) RainArc" where
  "arc_run s ops = foldl arc_step s ops"

text \<open>
  What the representation of a half relies on: the keys of the live chain are distinct
  (so the lookup in the chain is the map \<open>mainCache_\<close>), a ghost map entry is the node of
  its key nearest to the head of the ghost chain (the node \<open>unlinkNode\<close> takes out), and
  the ghost map is finite.
\<close>

definition part_wf :: "('k, 'v) ArcLruPart \<Rightarrow> bool" where
  "part_wf p \<longleftrightarrow>
     distinct (map arc_key (mainList p))
   \<and> (\<forall>k n. ghostCache p k = Some n \<longrightarrow> findArcNode k (ghostList p) = Some n)
   \<and> finite (dom (ghostCache p))"

text \<open>Both live lists within their current capacities.\<close>

definition main_bounded :: "('k, 'v) RainArc \<Rightarrow> bool" where
  "main_bounded s \<longleftrightarrow>
     length (mainList (lruPart s)) \<le> part_capacity (lruPart s)
   \<and> length (mainList (lfuPart s)) \<le> part_capacity (lfuPart s)"

section \<open>Properties of the plain LRU\<close>

lemma findNode_Some: "findNode k ns = Some n \<Longrightarrow> n \<in> set ns \<and> lru_key n = k"
  unfolding findNode_def by (induction ns) (auto split: if_splits)

lemma findNode_None: "findNode k ns = None \<longleftrightarrow> k \<notin> lru_key ` set ns"
  unfolding findNode_def by (induction ns) auto

lemma keys_removeNode: "map lru_key (removeNode n ns) = remove1 (lru_key n) (map lru_key ns)"
  by (induction ns) auto

lemma length_removeNode_le: "length (removeNode n ns) \<le> length ns"
  by (induction ns) auto

lemma length_removeNode:
  "lru_key n \<in> lru_key ` set ns \<Longrightarrow> Suc (length (removeNode n ns)) = length ns"
  by (induction ns) auto

lemma length_moveToMostRecent:
  "lru_key n \<in> lru_key ` set ns \<Longrightarrow> length (moveToMostRecent n ns) = length ns"
  by (simp add: moveToMostRecent_def insertNode_def length_removeNode)

lemma distinct_moveToMostRecent:
  "distinct (map lru_key ns) \<Longrightarrow> distinct (map lru_key (moveToMostRecent n ns))"
  by (simp add: moveToMostRecent_def insertNode_def keys_removeNode)

lemma findNode_append:
  "findNode k (ms @ ns) = (case findNode k ms of Some n \<Rightarrow> Some n | None \<Rightarrow> findNode k ns)"
  unfolding findNode_def by (induction ms) auto

lemma findNode_removeNode_other:
  "k \<noteq> lru_key n \<Longrightarrow> findNode k (removeNode n ns) = findNode k ns"
  unfolding findNode_def by (induction ns) simp_all

lemma findNode_removeNode_same:
  assumes "distinct (map lru_key ns)"
  shows "findNode (lru_key n) (removeNode n ns) = None"
proof -
  have "lru_key n \<notin> set (map lru_key (removeNode n ns))"
    using assms by (simp add: keys_removeNode)
  then show ?thesis by (simp add: findNode_None)
qed

lemma findNode_moveToMostRecent:
  assumes "distinct (map lru_key ns)"
  shows "findNode k (moveToMostRecent n ns) =
           (if k = lru_key n then Some n else findNode k ns)"
proof (cases "k = lru_key n")
  case True
  then show ?thesis
    using findNode_removeNode_same [OF assms, of n]
    by (simp add: moveToMostRecent_def insertNode_def findNode_append) (simp add: findNode_def)
next
  case False
  have "findNode k [n] = None" using False by (simp add: findNode_def)
  then show ?thesis using False
    by (simp add: moveToMostRecent_def insertNode_def findNode_append
        findNode_removeNode_other split: option.splits)
qed

lemma RainLru_put_capacity [simp]: "lru_capacity (RainLru_put s k v) = lru_capacity s"
  by (simp add: RainLru_put_def updateExistingNode_def addNewNode_def evictLeastRecent_def
      Let_def split: option.splits list.splits)

lemma RainLru_get_capacity [simp]: "lru_capacity (snd (RainLru_get s k)) = lru_capacity s"
  by (simp add: RainLru_get_def split: option.splits)

lemma RainLru_remove_capacity [simp]: "lru_capacity (RainLru_remove s k) = lru_capacity s"
  by (simp add: RainLru_remove_def split: option.splits)

lemma RainLru_put_bounded:
  assumes "int (length (lru_nodes s)) \<le> lru_capacity s"
  shows "int (length (lru_nodes (RainLru_put s k v))) \<le> lru_capacity s"
proof (cases "lru_capacity s \<le> 0")
  case True
  then show ?thesis using assms by (simp add: RainLru_put_def)
next
  case pos: False
  show ?thesis
  proof (cases "findNode k (lru_nodes s)")
    case None
    then show ?thesis using assms pos
      by (auto simp: RainLru_put_def addNewNode_def evictLeastRecent_def insertNode_def
          size_t_of_int_def Let_def split: list.splits)
  next
    case (Some n)
    then have "lru_key n \<in> lru_key ` set (lru_nodes s)"
      using findNode_Some by force
    then have "length (moveToMostRecent (n\<lparr>lru_value := v\<rparr>) (lru_nodes s)) = length (lru_nodes s)"
      by (simp add: length_moveToMostRecent)
    then show ?thesis using assms pos Some
      by (simp add: RainLru_put_def updateExistingNode_def)
  qed
qed

lemma RainLru_get_length:
  "length (lru_nodes (snd (RainLru_get s k))) = length (lru_nodes s)"
proof (cases "findNode k (lru_nodes s)")
  case None
  then show ?thesis by (simp add: RainLru_get_def)
next
  case (Some n)
  then have "lru_key n \<in> lru_key ` set (lru_nodes s)"
    using findNode_Some by force
  then show ?thesis using Some by (simp add: RainLru_get_def length_moveToMostRecent)
qed

lemma RainLru_remove_length:
  "length (lru_nodes (RainLru_remove s k)) \<le> length (lru_nodes s)"
  by (simp add: RainLru_remove_def length_removeNode_le split: option.splits)

lemma lru_step_capacity [simp]: "lru_capacity (lru_step s x) = lru_capacity s"
  by (cases x) simp_all

lemma lru_run_capacity [simp]: "lru_capacity (lru_run s ops) = lru_capacity s"
  unfolding lru_run_def by (induction ops arbitrary: s) simp_all

lemma lru_step_bounded:
  "int (length (lru_nodes s)) \<le> lru_capacity s \<Longrightarrow>
   int (length (lru_nodes (lru_step s x))) \<le> lru_capacity s"
proof (cases x)
  case (LruPut k v)
  assume "int (length (lru_nodes s)) \<le> lru_capacity s"
  then show ?thesis using LruPut by (simp add: RainLru_put_bounded)
next
  case (LruGet k)
  assume "int (length (lru_nodes s)) \<le> lru_capacity s"
  then show ?thesis using LruGet by (simp add: RainLru_get_length)
next
  case (LruRemove k)
  assume "int (length (lru_nodes s)) \<le> lru_capacity s"
  then show ?thesis using LruRemove RainLru_remove_length [of s k] by simp
qed

lemma lru_run_bounded:
  "int (length (lru_nodes s)) \<le> lru_capacity s \<Longrightarrow>
   int (length (lru_nodes (lru_run s ops))) \<le> lru_capacity s"
  unfolding lru_run_def
proof (induction ops arbitrary: s)
  case Nil
  then show ?case by simp
next
  case (Cons x xs)
  from Cons.prems have "int (length (lru_nodes (lru_step s x))) \<le> lru_capacity (lru_step s x)"
    by (simp add: lru_step_bounded)
  from Cons.IH [OF this] show ?case by simp
qed

lemma RainLru_put_distinct:
  assumes "distinct (map lru_key (lru_nodes s))"
  shows "distinct (map lru_key (lru_nodes (RainLru_put s k v)))"
proof (cases "findNode k (lru_nodes s)")
  case None
  then have "k \<notin> lru_key ` set (lru_nodes s)" by (simp add: findNode_None)
  then show ?thesis using assms None
    by (auto simp: RainLru_put_def addNewNode_def evictLeastRecent_def insertNode_def
        new_LruNode_def Let_def split: list.splits)
next
  case (Some n)
  then show ?thesis using assms
    by (simp add: RainLru_put_def updateExistingNode_def distinct_moveToMostRecent)
qed

lemma RainLru_get_distinct:
  "distinct (map lru_key (lru_nodes s)) \<Longrightarrow>
   distinct (map lru_key (lru_nodes (snd (RainLru_get s k))))"
  by (simp add: RainLru_get_def distinct_moveToMostRecent split: option.splits)

lemma RainLru_remove_distinct:
  "distinct (map lru_key (lru_nodes s)) \<Longrightarrow>
   distinct (map lru_key (lru_nodes (RainLru_remove s k)))"
  by (simp add: RainLru_remove_def keys_removeNode split: option.splits)

lemma lru_run_distinct:
  "distinct (map lru_key (lru_nodes s)) \<Longrightarrow>
   distinct (map lru_key (lru_nodes (lru_run s ops)))"
  unfolding lru_run_def
proof (induction ops arbitrary: s)
  case Nil
  then show ?case by simp
next
  case (Cons x xs)
  have "distinct (map lru_key (lru_nodes (lru_step s x)))"
    using Cons.prems
    by (cases x) (simp_all add: RainLru_put_distinct RainLru_get_distinct RainLru_remove_distinct)
  from Cons.IH [OF this] show ?case by simp
qed

lemma set_removeNode: "set (removeNode n ns) \<subseteq> set ns"
  by (induction ns) auto

lemma lru_step_counts_one:
  assumes "list_all (\<lambda>n. lru_accessCount n = 1) (lru_nodes s)"
  shows "list_all (\<lambda>n. lru_accessCount n = 1) (lru_nodes (lru_step s x))"
proof -
  have rm: "\<And>n. list_all (\<lambda>n. lru_accessCount n = 1) (removeNode n (lru_nodes s))"
    using assms set_removeNode unfolding list_all_iff by fast
  have mem: "\<And>k n. findNode k (lru_nodes s) = Some n \<Longrightarrow> lru_accessCount n = 1"
    using assms findNode_Some unfolding list_all_iff by fast
  have tl: "\<And>m ms. lru_nodes s = m # ms \<Longrightarrow> list_all (\<lambda>n. lru_accessCount n = 1) ms"
    using assms by simp
  show ?thesis
  proof (cases x)
    case (LruPut k v)
    then show ?thesis using assms rm mem tl
      by (auto simp: RainLru_put_def updateExistingNode_def addNewNode_def moveToMostRecent_def
          insertNode_def evictLeastRecent_def new_LruNode_def Let_def
          split: option.splits list.splits)
  next
    case (LruGet k)
    then show ?thesis using assms rm mem
      by (auto simp: RainLru_get_def moveToMostRecent_def insertNode_def split: option.splits)
  next
    case (LruRemove k)
    then show ?thesis using assms rm
      by (auto simp: RainLru_remove_def split: option.splits)
  qed
qed

lemma lru_run_counts_one:
  "list_all (\<lambda>n. lru_accessCount n = 1) (lru_nodes s) \<Longrightarrow>
   list_all (\<lambda>n. lru_accessCount n = 1) (lru_nodes (lru_run s ops))"
  unfolding lru_run_def
proof (induction ops arbitrary: s)
  case Nil
  then show ?case by simp
next
  case (Cons x xs)
  from Cons.IH [OF lru_step_counts_one [OF Cons.prems]] show ?case by simp
qed

lemma lru_step_empty_when_disabled:
  "lru_capacity s \<le> 0 \<Longrightarrow> lru_nodes s = [] \<Longrightarrow> lru_nodes (lru_step s x) = []"
  by (cases x) (simp_all add: RainLru_put_def RainLru_get_def RainLru_remove_def findNode_def)

lemma lru_run_empty_when_disabled:
  "lru_capacity s \<le> 0 \<Longrightarrow> lru_nodes s = [] \<Longrightarrow> lru_nodes (lru_run s ops) = []"
  unfolding lru_run_def
proof (induction ops arbitrary: s)
  case Nil
  then show ?case by simp
next
  case (Cons x xs)
  have "lru_capacity (lru_step s x) \<le> 0" using Cons.prems by simp
  moreover have "lru_nodes (lru_step s x) = []"
    using Cons.prems by (rule lru_step_empty_when_disabled)
  ultimately show ?case using Cons.IH by simp
qed

lemma RainLru_get_hit:
  assumes "distinct (map lru_key (lru_nodes s))" and "findNode k (lru_nodes s) = Some n"
  shows "findNode j (lru_nodes (snd (RainLru_get s k))) = (if j = k then Some n else findNode j (lru_nodes s))"
    and "fst (RainLru_get s k) = Some (lru_value n)"
  using assms findNode_Some [OF assms(2)]
  by (simp_all add: RainLru_get_def findNode_moveToMostRecent)

lemma RainLru_put_update:
  assumes "distinct (map lru_key (lru_nodes s))" and "findNode k (lru_nodes s) = Some n"
    and "0 < lru_capacity s"
  shows "findNode j (lru_nodes (RainLru_put s k v)) =
           (if j = k then Some (n\<lparr>lru_value := v\<rparr>) else findNode j (lru_nodes s))"
  using assms findNode_Some [OF assms(2)]
  by (simp add: RainLru_put_def updateExistingNode_def findNode_moveToMostRecent)

lemma RainLru_put_new:
  assumes "findNode k (lru_nodes s) = None" and "0 < lru_capacity s"
  shows "findNode k (lru_nodes (RainLru_put s k v)) = Some (new_LruNode k v)"
proof -
  have "findNode k (tl (lru_nodes s)) = None"
    using assms(1) by (cases "lru_nodes s") (auto simp: findNode_def split: if_splits)
  moreover have "findNode k [new_LruNode k v] = Some (new_LruNode k v)"
    by (simp add: findNode_def new_LruNode_def)
  ultimately show ?thesis using assms
    by (auto simp: RainLru_put_def addNewNode_def evictLeastRecent_def insertNode_def
        findNode_append Let_def split: list.splits)
qed

text \<open>
  C3 (as the code has it). \<open>incrementAccessCount\<close> is never called by \<open>RainLru\<close>: in
  every state reached from construction, a resident entry has access count 1; a
  get-hit leaves the entry (and so its count) as it was, a put on a resident key
  changes only the value, and a put of an absent key creates the entry with count 1.
\<close>

theorem C3_access_count_stays_one:
  assumes "s = lru_run (RainLru_init c) ops"
  shows "(findNode k (lru_nodes s) = Some n \<longrightarrow>
            lru_accessCount n = 1
          \<and> fst (RainLru_get s k) = Some (lru_value n)
          \<and> findNode k (lru_nodes (snd (RainLru_get s k))) = Some n
          \<and> findNode k (lru_nodes (RainLru_put s k v)) = Some (n\<lparr>lru_value := v\<rparr>))
       \<and> (findNode k (lru_nodes s) = None \<and> 0 < c \<longrightarrow>
            findNode k (lru_nodes (RainLru_put s k v)) = Some (new_LruNode k v)
          \<and> lru_accessCount (new_LruNode k v) = 1)"
proof -
  have d: "distinct (map lru_key (lru_nodes s))"
    unfolding assms by (rule lru_run_distinct) (simp add: RainLru_init_def)
  have one: "list_all (\<lambda>n. lru_accessCount n = 1) (lru_nodes s)"
    unfolding assms by (rule lru_run_counts_one) (simp add: RainLru_init_def)
  have cap: "lru_capacity s = c"
    unfolding assms by (simp add: RainLru_init_def)
  have off: "c \<le> 0 \<Longrightarrow> lru_nodes s = []"
    unfolding assms by (rule lru_run_empty_when_disabled) (simp_all add: RainLru_init_def)
  have hit: "findNode k (lru_nodes s) = Some n \<longrightarrow>
            lru_accessCount n = 1
          \<and> fst (RainLru_get s k) = Some (lru_value n)
          \<and> findNode k (lru_nodes (snd (RainLru_get s k))) = Some n
          \<and> findNode k (lru_nodes (RainLru_put s k v)) = Some (n\<lparr>lru_value := v\<rparr>)"
  proof
    assume f: "findNode k (lru_nodes s) = Some n"
    then have "n \<in> set (lru_nodes s)" by (simp add: findNode_Some)
    then have c1: "lru_accessCount n = 1" using one unfolding list_all_iff by simp
    have pos: "0 < lru_capacity s"
    proof (rule ccontr)
      assume "\<not> 0 < lru_capacity s"
      then have "lru_nodes s = []" using off cap by simp
      then show False using f by (simp add: findNode_def)
    qed
    show "lru_accessCount n = 1
          \<and> fst (RainLru_get s k) = Some (lru_value n)
          \<and> findNode k (lru_nodes (snd (RainLru_get s k))) = Some n
          \<and> findNode k (lru_nodes (RainLru_put s k v)) = Some (n\<lparr>lru_value := v\<rparr>)"
      using c1 RainLru_get_hit [OF d f] RainLru_put_update [OF d f pos] by simp
  qed
  have miss: "findNode k (lru_nodes s) = None \<and> 0 < c \<longrightarrow>
            findNode k (lru_nodes (RainLru_put s k v)) = Some (new_LruNode k v)
          \<and> lru_accessCount (new_LruNode k v) = 1"
    using RainLru_put_new [of k s v] cap by (simp add: new_LruNode_def)
  from hit miss show ?thesis by blast
qed

theorem C3_access_count_stays_one_witness:
  "findNode (1::nat) (lru_nodes (lru_run (RainLru_init 2) [LruPut 1 ''a''])) = Some (new_LruNode 1 ''a'')
   \<and> lru_accessCount (new_LruNode (1::nat) ''a'') = 1
   \<and> fst (RainLru_get (lru_run (RainLru_init 2) [LruPut (1::nat) ''a'']) 1) = Some ''a''
   \<and> findNode 1 (lru_nodes (snd (RainLru_get (lru_run (RainLru_init 2) [LruPut (1::nat) ''a'']) 1)))
       = Some (new_LruNode 1 ''a'')
   \<and> findNode 1 (lru_nodes (RainLru_put (lru_run (RainLru_init 2) [LruPut (1::nat) ''a'']) 1 ''b''))
       = Some (new_LruNode 1 ''b'')"
proof -
  have f1: "findNode (1::nat) (lru_nodes (lru_run (RainLru_init 2) [LruPut 1 ''a'']))
              = Some (new_LruNode 1 ''a'')"
    by (simp add: lru_run_def RainLru_init_def RainLru_put_def addNewNode_def insertNode_def
        findNode_def new_LruNode_def size_t_of_int_def)
  have v: "lru_value (new_LruNode (1::nat) ''a'') = ''a''"
    and u: "(new_LruNode (1::nat) ''a'')\<lparr>lru_value := ''b''\<rparr> = new_LruNode 1 ''b''"
    by (simp_all add: new_LruNode_def)
  from C3_access_count_stays_one
         [where c = 2 and ops = "[LruPut (1::nat) ''a'']" and k = 1
            and n = "new_LruNode 1 ''a''" and v = "''b''", OF refl]
  show ?thesis using f1 v u by simp
qed

text \<open>
  C3 (as the claim states it) fails: with capacity 2, after \<open>put(1, "a")\<close> the entry has
  access count 1, and after a \<open>get(1)\<close> that hits and returns \<open>"a"\<close> the count is still 1,
  not 2.
\<close>

theorem C3_counterexample:
  "fst (RainLru_get (RainLru_put (RainLru_init 2) (1::nat) ''a'') 1) = Some ''a''
   \<and> map lru_accessCount (lru_nodes (RainLru_put (RainLru_init 2) (1::nat) ''a'')) = [1]
   \<and> map lru_accessCount
        (lru_nodes (snd (RainLru_get (RainLru_put (RainLru_init 2) (1::nat) ''a'') 1))) \<noteq> [2]"
  by (simp add: RainLru_init_def RainLru_put_def RainLru_get_def addNewNode_def insertNode_def
      moveToMostRecent_def findNode_def new_LruNode_def size_t_of_int_def)

section \<open>Properties of LRU-K\<close>

lemma RainLru_get_miss: "findNode k (lru_nodes s) = None \<Longrightarrow> RainLru_get s k = (None, s)"
  by (simp add: RainLru_get_def)

lemma RainLru_get_value_miss:
  "findNode k (lru_nodes s) = None \<Longrightarrow> RainLru_get_value dflt s k = (dflt, s)"
  by (simp add: RainLru_get_value_def RainLru_get_miss)

lemma RainLruK_get_miss:
  assumes "findNode k (lru_nodes (lruk_main s)) = None"
  shows "RainLruK_get dflt s k =
    (if newHistoryCount s k \<ge> size_t_of_int (lruk_k s) \<and> historyValueMap s k \<noteq> None
     then (the (historyValueMap s k),
           s\<lparr>historyList := RainLru_remove (recordAccess s k) k,
              historyValueMap := (historyValueMap s)(k := None),
              lruk_main := RainLru_put (lruk_main s) k (the (historyValueMap s k))\<rparr>)
     else (dflt, s\<lparr>historyList := recordAccess s k\<rparr>))"
  using assms
  by (auto simp: RainLruK_get_def RainLru_get_miss newHistoryCount_def recordAccess_def Let_def
      split: prod.splits option.splits)

lemma RainLruK_get_hit:
  assumes "findNode k (lru_nodes (lruk_main s)) = Some n"
  shows "RainLruK_get dflt s k =
           (lru_value n, s\<lparr>lruk_main := snd (RainLru_get (lruk_main s) k),
                           historyList := recordAccess s k\<rparr>)"
  using assms
  by (auto simp: RainLruK_get_def RainLru_get_def newHistoryCount_def recordAccess_def Let_def
      split: prod.splits option.splits)

lemma RainLruK_put_miss:
  assumes "findNode k (lru_nodes (lruk_main s)) = None"
  shows "RainLruK_put s k v =
    (if newHistoryCount s k \<ge> size_t_of_int (lruk_k s)
     then s\<lparr>historyList := RainLru_remove (recordAccess s k) k,
            historyValueMap := (historyValueMap s)(k := None),
            lruk_main := RainLru_put (lruk_main s) k v\<rparr>
     else s\<lparr>historyList := recordAccess s k,
            historyValueMap := (historyValueMap s)(k \<mapsto> v)\<rparr>)"
  using assms
  by (auto simp: RainLruK_put_def RainLru_get_miss newHistoryCount_def recordAccess_def Let_def
      split: prod.splits option.splits)

lemma RainLruK_put_hit:
  assumes "findNode k (lru_nodes (lruk_main s)) = Some n"
  shows "RainLruK_put s k v =
           s\<lparr>lruk_main := RainLru_put (snd (RainLru_get (lruk_main s) k)) k v\<rparr>"
  using assms
  by (auto simp: RainLruK_put_def RainLru_get_def Let_def split: prod.splits option.splits)

lemma lruk_step_side_other:
  "lruk_op_key x \<noteq> j \<Longrightarrow> historyValueMap (lruk_step dflt s x) j = historyValueMap s j"
proof (cases x)
  case (KPut k v)
  assume "lruk_op_key x \<noteq> j"
  then show ?thesis using KPut
    by (cases "findNode k (lru_nodes (lruk_main s))")
       (simp_all add: RainLruK_put_miss RainLruK_put_hit)
next
  case (KGet k)
  assume "lruk_op_key x \<noteq> j"
  then show ?thesis using KGet
    by (cases "findNode k (lru_nodes (lruk_main s))")
       (simp_all add: RainLruK_get_miss RainLruK_get_hit)
qed

lemma lruk_run_side_other:
  "list_all (\<lambda>x. lruk_op_key x \<noteq> j) ops \<Longrightarrow>
   historyValueMap (lruk_run dflt s ops) j = historyValueMap s j"
  unfolding lruk_run_def
  by (induction ops arbitrary: s) (simp_all add: lruk_step_side_other)

lemma lruk_step_side_erased:
  assumes "historyValueMap s j = Some x" and "historyValueMap (lruk_step dflt s y) j = None"
  shows "lruk_op_key y = j \<and> findNode j (lru_nodes (lruk_main s)) = None
       \<and> size_t_of_int (lruk_k s) \<le> newHistoryCount s j
       \<and> lruk_main (lruk_step dflt s y) =
           RainLru_put (lruk_main s) j (case y of KPut k v \<Rightarrow> v | KGet k \<Rightarrow> x)"
proof -
  have key: "lruk_op_key y = j"
    using assms lruk_step_side_other [of y j dflt s] by fastforce
  show ?thesis
  proof (cases y)
    case (KPut k v)
    then have kj: "k = j" using key by simp
    show ?thesis
    proof (cases "findNode j (lru_nodes (lruk_main s))")
      case None
      then show ?thesis using assms KPut kj
        by (simp add: RainLruK_put_miss split: if_splits)
    next
      case (Some n)
      then show ?thesis using assms KPut kj by (simp add: RainLruK_put_hit)
    qed
  next
    case (KGet k)
    then have kj: "k = j" using key by simp
    show ?thesis
    proof (cases "findNode j (lru_nodes (lruk_main s))")
      case None
      then show ?thesis using assms KGet kj
        by (simp add: RainLruK_get_miss split: if_splits)
    next
      case (Some n)
      then show ?thesis using assms KGet kj by (simp add: RainLruK_get_hit)
    qed
  qed
qed

lemma lruk_step_side_changed:
  assumes "historyValueMap s j = Some x" and "historyValueMap (lruk_step dflt s y) j = Some z"
    and "z \<noteq> x"
  shows "y = KPut j z"
proof -
  have key: "lruk_op_key y = j"
    using assms lruk_step_side_other [of y j dflt s] by fastforce
  show ?thesis
  proof (cases y)
    case (KPut k v)
    then have kj: "k = j" using key by simp
    show ?thesis
    proof (cases "findNode j (lru_nodes (lruk_main s))")
      case None
      then show ?thesis using assms KPut kj
        by (simp add: RainLruK_put_miss split: if_splits)
    next
      case (Some n)
      then show ?thesis using assms KPut kj by (simp add: RainLruK_put_hit)
    qed
  next
    case (KGet k)
    then have kj: "k = j" using key by simp
    show ?thesis
    proof (cases "findNode j (lru_nodes (lruk_main s))")
      case None
      then show ?thesis using assms KGet kj
        by (simp add: RainLruK_get_miss split: if_splits)
    next
      case (Some n)
      then show ?thesis using assms KGet kj by (simp add: RainLruK_get_hit)
    qed
  qed
qed

text \<open>Putting fresh keys, each once, with a threshold of at least 2.\<close>

lemma set_evictLeastRecent: "set (lru_nodes (evictLeastRecent s)) \<subseteq> set (lru_nodes s)"
  by (auto simp: evictLeastRecent_def split: list.splits)

lemma RainLru_put_keys:
  "lru_key ` set (lru_nodes (RainLru_put s k v)) \<subseteq> insert k (lru_key ` set (lru_nodes s))"
proof (cases "lru_capacity s \<le> 0")
  case True
  then show ?thesis by (auto simp: RainLru_put_def)
next
  case False
  show ?thesis
  proof (cases "findNode k (lru_nodes s)")
    case None
    then show ?thesis using False set_evictLeastRecent [of s]
      by (auto simp: RainLru_put_def addNewNode_def insertNode_def new_LruNode_def Let_def)
  next
    case (Some n)
    have "lru_key n = k" using Some by (simp add: findNode_Some)
    moreover have "set (removeNode (n\<lparr>lru_value := v\<rparr>) (lru_nodes s)) \<subseteq> set (lru_nodes s)"
      by (rule set_removeNode)
    ultimately show ?thesis using False Some
      by (auto simp: RainLru_put_def updateExistingNode_def moveToMostRecent_def insertNode_def)
  qed
qed

lemma fresh_puts:
  assumes "2 \<le> K"
  shows "lru_nodes (lruk_main (lruk_run dflt (RainLruK_init c h K) (map (\<lambda>i. KPut i v) [0..<n]))) = []
       \<and> lru_key ` set (lru_nodes (historyList
            (lruk_run dflt (RainLruK_init c h K) (map (\<lambda>i. KPut i v) [0..<n])))) \<subseteq> {0..<n}
       \<and> dom (historyValueMap
            (lruk_run dflt (RainLruK_init c h K) (map (\<lambda>i. KPut i v) [0..<n]))) = {0..<n}
       \<and> lruk_k (lruk_run dflt (RainLruK_init c h K) (map (\<lambda>i. KPut i v) [0..<n])) = K"
proof (induction n)
  case 0
  show ?case by (simp add: lruk_run_def RainLruK_init_def RainLru_init_def)
next
  case (Suc n)
  define s where "s = lruk_run dflt (RainLruK_init c h K) (map (\<lambda>i. KPut i v) [0..<n])"
  have run: "lruk_run dflt (RainLruK_init c h K) (map (\<lambda>i. KPut i v) [0..<Suc n]) =
             RainLruK_put s n v"
    by (simp add: lruk_run_def s_def)
  from Suc.IH have main: "lru_nodes (lruk_main s) = []"
    and hist: "lru_key ` set (lru_nodes (historyList s)) \<subseteq> {0..<n}"
    and side: "dom (historyValueMap s) = {0..<n}"
    and k: "lruk_k s = K"
    unfolding s_def by simp_all
  have m: "findNode n (lru_nodes (lruk_main s)) = None"
    using main by (simp add: findNode_def)
  have hm: "findNode n (lru_nodes (historyList s)) = None"
    using hist by (auto simp: findNode_None)
  have cnt: "newHistoryCount s n = 1"
    by (simp add: newHistoryCount_def RainLru_get_value_miss [OF hm])
  have rec: "recordAccess s n = RainLru_put (historyList s) n 1"
    by (simp add: recordAccess_def cnt RainLru_get_value_miss [OF hm])
  have below: "\<not> size_t_of_int (lruk_k s) \<le> newHistoryCount s n"
    using assms k cnt by (simp add: size_t_of_int_def)
  have put: "RainLruK_put s n v =
      s\<lparr>historyList := RainLru_put (historyList s) n 1,
        historyValueMap := (historyValueMap s)(n \<mapsto> v)\<rparr>"
    using below by (simp add: RainLruK_put_miss [OF m] rec)
  have "insert n (lru_key ` set (lru_nodes (historyList s))) \<subseteq> {0..<Suc n}"
    using hist by auto
  then have "lru_key ` set (lru_nodes (RainLru_put (historyList s) n 1)) \<subseteq> {0..<Suc n}"
    using RainLru_put_keys [of "historyList s" n 1] by (rule subset_trans [rotated])
  then have c2: "lru_key ` set (lru_nodes (historyList (RainLruK_put s n v))) \<subseteq> {0..<Suc n}"
    by (simp add: put)
  have "dom ((historyValueMap s)(n \<mapsto> v)) = {0..<Suc n}"
    using side by auto
  then have c3: "dom (historyValueMap (RainLruK_put s n v)) = {0..<Suc n}"
    unfolding put by (simp del: dom_fun_upd fun_upd_apply)
  have c1: "lru_nodes (lruk_main (RainLruK_put s n v)) = []"
    using main by (simp add: put)
  have c4: "lruk_k (RainLruK_put s n v) = K"
    using k by (simp add: put)
  show ?case unfolding run using c1 c2 c3 c4 by blast
qed

lemmas lruk_eval = RainLruK_init_def RainLru_init_def RainLruK_put_def RainLruK_get_def
  RainLru_get_def RainLru_get_value_def RainLru_put_def RainLru_remove_def
  addNewNode_def updateExistingNode_def evictLeastRecent_def moveToMostRecent_def
  insertNode_def findNode_def new_LruNode_def size_t_of_int_def

text \<open>
  C4 (as the code has it). With K = 2, main capacity 2 and history capacity 4, starting
  from the empty cache: after \<open>put(k, a)\<close> the main cache does not contain \<open>k\<close> (the put
  is the first recorded access); the first \<open>get(k)\<close> is the second recorded access, so it
  already returns \<open>a\<close> and moves the entry into the main cache; a second \<open>get(k)\<close>
  returns \<open>a\<close> again.
\<close>

theorem C4_first_get_returns_stored_value:
  "findNode k (lru_nodes (lruk_main (RainLruK_put (RainLruK_init 2 4 2) k a))) = None
   \<and> fst (RainLruK_get dflt (RainLruK_put (RainLruK_init 2 4 2) k a) k) = a
   \<and> findNode k (lru_nodes (lruk_main
         (snd (RainLruK_get dflt (RainLruK_put (RainLruK_init 2 4 2) k a) k))))
       = Some (new_LruNode k a)
   \<and> fst (RainLruK_get dflt
         (snd (RainLruK_get dflt (RainLruK_put (RainLruK_init 2 4 2) k a) k)) k) = a"
  by (simp add: lruk_eval Let_def)

text \<open>
  C4 (as the claim states it) fails: the first \<open>get(1)\<close> after \<open>put(1, "a")\<close> returns
  \<open>"a"\<close>, not the default-constructed (empty) string.
\<close>

theorem C4_counterexample:
  "fst (RainLruK_get '''' (RainLruK_put (RainLruK_init 2 4 2) (1::nat) ''a'') 1) \<noteq> ''''"
  by (simp add: lruk_eval Let_def)

text \<open>
  C10. (1) A side-table entry disappears only on the promotion path: the call is on that
  key, the key was not in the main cache, the new history count reached \<open>k_\<close>, and the
  main cache is the result of \<open>RainLru::put\<close> of the key. (2) An entry's value changes
  only by a put of that key. (3) Calls on other keys, whatever they evict from the
  history cache, leave the entry alone. (4) A put below the threshold stores the value.
  (5) The side table has no bound: \<open>n\<close> distinct keys put once each, with a threshold of
  at least 2, leave \<open>n\<close> entries, whatever the two capacities are.
\<close>

theorem C10_side_table_erased_only_on_promotion:
  "(historyValueMap s j = Some x \<and> historyValueMap (lruk_step dflt s y) j = None \<longrightarrow>
      lruk_op_key y = j \<and> findNode j (lru_nodes (lruk_main s)) = None
      \<and> size_t_of_int (lruk_k s) \<le> newHistoryCount s j
      \<and> lruk_main (lruk_step dflt s y) =
           RainLru_put (lruk_main s) j (case y of KPut k v \<Rightarrow> v | KGet k \<Rightarrow> x))
   \<and> (historyValueMap s j = Some x \<and> historyValueMap (lruk_step dflt s y) j = Some z \<and> z \<noteq> x
        \<longrightarrow> y = KPut j z)
   \<and> (list_all (\<lambda>y. lruk_op_key y \<noteq> j) ops \<longrightarrow>
        historyValueMap (lruk_run dflt s ops) j = historyValueMap s j)
   \<and> (findNode k (lru_nodes (lruk_main s)) = None
        \<and> newHistoryCount s k < size_t_of_int (lruk_k s) \<longrightarrow>
        historyValueMap (RainLruK_put s k v) k = Some v)
   \<and> (2 \<le> K \<longrightarrow>
        card (dom (historyValueMap
          (lruk_run dflt (RainLruK_init c h K) (map (\<lambda>i. KPut i v) [0..<n])))) = n)"
proof -
  have p1: "historyValueMap s j = Some x \<and> historyValueMap (lruk_step dflt s y) j = None \<longrightarrow>
      lruk_op_key y = j \<and> findNode j (lru_nodes (lruk_main s)) = None
      \<and> size_t_of_int (lruk_k s) \<le> newHistoryCount s j
      \<and> lruk_main (lruk_step dflt s y) =
           RainLru_put (lruk_main s) j (case y of KPut k v \<Rightarrow> v | KGet k \<Rightarrow> x)"
    using lruk_step_side_erased [of s j x dflt y] by blast
  have p2: "historyValueMap s j = Some x \<and> historyValueMap (lruk_step dflt s y) j = Some z
        \<and> z \<noteq> x \<longrightarrow> y = KPut j z"
    using lruk_step_side_changed [of s j x dflt y z] by blast
  have p3: "list_all (\<lambda>y. lruk_op_key y \<noteq> j) ops \<longrightarrow>
        historyValueMap (lruk_run dflt s ops) j = historyValueMap s j"
    using lruk_run_side_other [of j ops dflt s] by blast
  have p4: "findNode k (lru_nodes (lruk_main s)) = None
        \<and> newHistoryCount s k < size_t_of_int (lruk_k s) \<longrightarrow>
        historyValueMap (RainLruK_put s k v) k = Some v"
    by (simp add: RainLruK_put_miss)
  have p5: "2 \<le> K \<longrightarrow>
        card (dom (historyValueMap
          (lruk_run dflt (RainLruK_init c h K) (map (\<lambda>i. KPut i v) [0..<n])))) = n"
    using fresh_puts [of K dflt c h v n] by simp
  from p1 p2 p3 p4 p5 show ?thesis by blast
qed

theorem C10_side_table_witness:
  "historyValueMap (RainLruK_put (RainLruK_init 2 4 2) (1::nat) ''a'') 1 = Some ''a''
   \<and> historyValueMap
        (lruk_step '''' (RainLruK_put (RainLruK_init 2 4 2) (1::nat) ''a'') (KGet 1)) 1 = None
   \<and> lruk_main (lruk_step '''' (RainLruK_put (RainLruK_init 2 4 2) (1::nat) ''a'') (KGet 1))
       = RainLru_put (RainLru_init 2) 1 ''a''
   \<and> findNode 1 (lru_nodes (historyList
        (lruk_run '''' (RainLruK_put (RainLruK_init 2 1 3) (1::nat) ''a'') [KPut 2 ''b''])))
       = None
   \<and> historyValueMap
        (lruk_run '''' (RainLruK_put (RainLruK_init 2 1 3) (1::nat) ''a'') [KPut 2 ''b'']) 1
       = Some ''a''
   \<and> card (dom (historyValueMap
        (lruk_run '''' (RainLruK_init 2 1 2) (map (\<lambda>i. KPut i ''v'') [0..<3])))) = 3"
proof -
  let ?s1 = "RainLruK_put (RainLruK_init 2 4 2) (1::nat) ''a''"
  let ?s2 = "RainLruK_put (RainLruK_init 2 1 3) (1::nat) ''a''"
  have a1: "historyValueMap ?s1 1 = Some ''a''"
    by (simp add: lruk_eval Let_def)
  have a2: "historyValueMap (lruk_step '''' ?s1 (KGet 1)) 1 = None"
    by (simp add: lruk_eval Let_def)
  have a3: "lruk_main ?s1 = RainLru_init 2"
    by (simp add: lruk_eval Let_def)
  have b1: "list_all (\<lambda>y. lruk_op_key y \<noteq> (1::nat)) [KPut 2 ''b'']"
    by simp
  have b2: "historyValueMap ?s2 1 = Some ''a''"
    by (simp add: lruk_eval Let_def)
  have b3: "findNode 1 (lru_nodes (historyList (lruk_run '''' ?s2 [KPut 2 ''b'']))) = None"
    by (simp add: lruk_run_def lruk_eval Let_def)
  note t1 = C10_side_table_erased_only_on_promotion
      [where s = ?s1 and j = 1 and x = "''a''" and y = "KGet 1" and dflt = "''''"
         and z = "''a''" and ops = "[]" and k = 1 and v = "''v''"
         and K = 2 and c = 2 and h = 1 and n = 3, THEN conjunct1]
  note t2 = C10_side_table_erased_only_on_promotion
      [where s = ?s2 and j = 1 and x = "''a''" and y = "KGet 1" and dflt = "''''"
         and z = "''a''" and ops = "[KPut 2 ''b'']" and k = 1 and v = "''v''"
         and K = 2 and c = 2 and h = 1 and n = 3,
       THEN conjunct2, THEN conjunct2, THEN conjunct1]
  note t3 = C10_side_table_erased_only_on_promotion
      [where s = ?s1 and j = 1 and x = "''a''" and y = "KGet 1" and dflt = "''''"
         and z = "''a''" and ops = "[]" and k = 1 and v = "''v''"
         and K = 2 and c = 2 and h = 1 and n = 3,
       THEN conjunct2, THEN conjunct2, THEN conjunct2, THEN conjunct2]
  have c1: "lruk_main (lruk_step '''' ?s1 (KGet 1)) = RainLru_put (RainLru_init 2) 1 ''a''"
    using t1 a1 a2 a3 by simp
  have c2: "historyValueMap (lruk_run '''' ?s2 [KPut 2 ''b'']) 1 = Some ''a''"
    using t2 b1 b2 by simp
  have c3: "card (dom (historyValueMap
        (lruk_run '''' (RainLruK_init 2 1 2) (map (\<lambda>i. KPut i ''v'') [0..<3])))) = 3"
    using t3 by simp
  from a1 a2 c1 b3 c2 c3 show ?thesis by blast
qed

section \<open>Properties of ARC\<close>

subsection \<open>What each half operation does to the capacities\<close>

lemma addToGhost_fields [simp]:
  "part_capacity (addToGhost n s) = part_capacity s"
  "ghostCapacity (addToGhost n s) = ghostCapacity s"
  "transformThreshold (addToGhost n s) = transformThreshold s"
  "mainList (addToGhost n s) = mainList s"
  by (simp_all add: addToGhost_def Let_def)

lemma removeOldestGhost_fields [simp]:
  "part_capacity (removeOldestGhost s) = part_capacity s"
  "ghostCapacity (removeOldestGhost s) = ghostCapacity s"
  "transformThreshold (removeOldestGhost s) = transformThreshold s"
  "mainList (removeOldestGhost s) = mainList s"
  by (simp_all add: removeOldestGhost_def Let_def)

lemma evict_fields [simp]:
  "part_capacity (ArcLruPart_evictLeastRecent s) = part_capacity s"
  "ghostCapacity (ArcLruPart_evictLeastRecent s) = ghostCapacity s"
  "transformThreshold (ArcLruPart_evictLeastRecent s) = transformThreshold s"
  "mainList (ArcLruPart_evictLeastRecent s) = butlast (mainList s)"
  by (simp_all add: ArcLruPart_evictLeastRecent_def Let_def)

lemma moveToFront_fields [simp]:
  "part_capacity (moveToFront n s) = part_capacity s"
  "ghostCapacity (moveToFront n s) = ghostCapacity s"
  "transformThreshold (moveToFront n s) = transformThreshold s"
  "ghostCache (moveToFront n s) = ghostCache s"
  "ghostList (moveToFront n s) = ghostList s"
  "mainList (moveToFront n s) = n # unlinkNode n (mainList s)"
  by (simp_all add: moveToFront_def addToFront_def)

lemma addToFront_fields [simp]:
  "part_capacity (addToFront n s) = part_capacity s"
  "ghostCapacity (addToFront n s) = ghostCapacity s"
  "transformThreshold (addToFront n s) = transformThreshold s"
  "ghostCache (addToFront n s) = ghostCache s"
  "ghostList (addToFront n s) = ghostList s"
  "mainList (addToFront n s) = n # mainList s"
  by (simp_all add: addToFront_def)

lemma ArcLruPart_put_fields [simp]:
  "part_capacity (snd (ArcLruPart_put s k v)) = part_capacity s"
  "ghostCapacity (snd (ArcLruPart_put s k v)) = ghostCapacity s"
  "transformThreshold (snd (ArcLruPart_put s k v)) = transformThreshold s"
  by (simp_all add: ArcLruPart_put_def ArcLruPart_updateExistingNode_def
      ArcLruPart_addNewNode_def Let_def split: option.splits)

lemma ArcLruPart_put_result: "fst (ArcLruPart_put s k v) = (part_capacity s \<noteq> 0)"
  by (simp add: ArcLruPart_put_def ArcLruPart_updateExistingNode_def
      ArcLruPart_addNewNode_def Let_def split: option.splits)

lemma ArcLruPart_get_fields [simp]:
  "part_capacity (snd (ArcLruPart_get s k)) = part_capacity s"
  "ghostCapacity (snd (ArcLruPart_get s k)) = ghostCapacity s"
  "transformThreshold (snd (ArcLruPart_get s k)) = transformThreshold s"
  "ghostCache (snd (ArcLruPart_get s k)) = ghostCache s"
  "ghostList (snd (ArcLruPart_get s k)) = ghostList s"
  by (simp_all add: ArcLruPart_get_def ArcLruPart_updateNodeAccess_def Let_def
      split: option.splits)

lemma ArcLfuPart_put_fields [simp]:
  "part_capacity (snd (ArcLfuPart_put s k v)) = part_capacity s"
  "ghostCapacity (snd (ArcLfuPart_put s k v)) = ghostCapacity s"
  "transformThreshold (snd (ArcLfuPart_put s k v)) = transformThreshold s"
  by (simp_all add: ArcLfuPart_put_def ArcLfuPart_evict_def Let_def split: option.splits)

lemma ArcLfuPart_get_fields [simp]:
  "part_capacity (snd (ArcLfuPart_get s k)) = part_capacity s"
  "ghostCapacity (snd (ArcLfuPart_get s k)) = ghostCapacity s"
  "transformThreshold (snd (ArcLfuPart_get s k)) = transformThreshold s"
  "ghostCache (snd (ArcLfuPart_get s k)) = ghostCache s"
  "ghostList (snd (ArcLfuPart_get s k)) = ghostList s"
  by (simp_all add: ArcLfuPart_get_def split: option.splits)

lemma ArcLruPart_checkGhost_fields [simp]:
  "part_capacity (snd (ArcLruPart_checkGhost s k)) = part_capacity s"
  "ghostCapacity (snd (ArcLruPart_checkGhost s k)) = ghostCapacity s"
  "transformThreshold (snd (ArcLruPart_checkGhost s k)) = transformThreshold s"
  "mainList (snd (ArcLruPart_checkGhost s k)) = mainList s"
  by (simp_all add: ArcLruPart_checkGhost_def removeFromGhost_def split: option.splits)

lemma ArcLruPart_checkGhost_result:
  "fst (ArcLruPart_checkGhost s k) = (ghostCache s k \<noteq> None)"
  by (simp add: ArcLruPart_checkGhost_def split: option.splits)


lemma ArcLruPart_checkGhost_miss:
  "ghostCache s k = None \<Longrightarrow> ArcLruPart_checkGhost s k = (False, s)"
  by (simp add: ArcLruPart_checkGhost_def)

lemma ArcLruPart_decreaseCapacity_result:
  "fst (ArcLruPart_decreaseCapacity s) = (0 < part_capacity s)"
  by (simp add: ArcLruPart_decreaseCapacity_def Let_def)

lemma ArcLruPart_decreaseCapacity_fields [simp]:
  "part_capacity (snd (ArcLruPart_decreaseCapacity s)) = part_capacity s - 1"
  "ghostCapacity (snd (ArcLruPart_decreaseCapacity s)) = ghostCapacity s"
  "transformThreshold (snd (ArcLruPart_decreaseCapacity s)) = transformThreshold s"
  by (simp_all add: ArcLruPart_decreaseCapacity_def Let_def)

lemma ArcLfuPart_decreaseCapacity_eq:
  "ArcLfuPart_decreaseCapacity s = ArcLruPart_decreaseCapacity s"
  by (simp add: ArcLfuPart_decreaseCapacity_def ArcLruPart_decreaseCapacity_def
      ArcLfuPart_evict_def)

lemma increaseCapacity_fields [simp]:
  "part_capacity (ArcLruPart_increaseCapacity s) = part_capacity s + 1"
  "ghostCapacity (ArcLruPart_increaseCapacity s) = ghostCapacity s"
  "transformThreshold (ArcLruPart_increaseCapacity s) = transformThreshold s"
  "mainList (ArcLruPart_increaseCapacity s) = mainList s"
  "ghostCache (ArcLruPart_increaseCapacity s) = ghostCache s"
  "ghostList (ArcLruPart_increaseCapacity s) = ghostList s"
  by (simp_all add: ArcLruPart_increaseCapacity_def)

lemma ArcLfuPart_increaseCapacity_eq:
  "ArcLfuPart_increaseCapacity s = ArcLruPart_increaseCapacity s"
  by (simp add: ArcLfuPart_increaseCapacity_def ArcLruPart_increaseCapacity_def)

subsection \<open>The ghost check\<close>

lemma checkGhostCaches_lru_hit:
  assumes "ghostCache (lruPart s) k \<noteq> None"
  shows "checkGhostCaches s k =
    (True, s\<lparr>lruPart := (if 0 < part_capacity (lfuPart s)
                          then ArcLruPart_increaseCapacity (snd (ArcLruPart_checkGhost (lruPart s) k))
                          else snd (ArcLruPart_checkGhost (lruPart s) k)),
             lfuPart := snd (ArcLfuPart_decreaseCapacity (lfuPart s))\<rparr>)"
proof -
  obtain r1 where r1: "ArcLruPart_checkGhost (lruPart s) k = (True, r1)"
    using assms ArcLruPart_checkGhost_result [of "lruPart s" k]
    by (cases "ArcLruPart_checkGhost (lruPart s) k") auto
  obtain dec f1 where d: "ArcLfuPart_decreaseCapacity (lfuPart s) = (dec, f1)"
    by (cases "ArcLfuPart_decreaseCapacity (lfuPart s)")
  have "dec = (0 < part_capacity (lfuPart s))"
    using d ArcLruPart_decreaseCapacity_result [of "lfuPart s"]
    by (simp add: ArcLfuPart_decreaseCapacity_eq)
  then show ?thesis
    by (simp add: checkGhostCaches_def r1 d)
qed

lemma checkGhostCaches_lfu_hit:
  assumes "ghostCache (lruPart s) k = None" and "ghostCache (lfuPart s) k \<noteq> None"
  shows "checkGhostCaches s k =
    (True, s\<lparr>lruPart := snd (ArcLruPart_decreaseCapacity (lruPart s)),
             lfuPart := (if 0 < part_capacity (lruPart s)
                          then ArcLfuPart_increaseCapacity (snd (ArcLfuPart_checkGhost (lfuPart s) k))
                          else snd (ArcLfuPart_checkGhost (lfuPart s) k))\<rparr>)"
proof -
  have r1: "ArcLruPart_checkGhost (lruPart s) k = (False, lruPart s)"
    using assms(1) by (rule ArcLruPart_checkGhost_miss)
  obtain f1 where f1: "ArcLfuPart_checkGhost (lfuPart s) k = (True, f1)"
    using assms(2) ArcLruPart_checkGhost_result [of "lfuPart s" k]
    by (cases "ArcLfuPart_checkGhost (lfuPart s) k") (auto simp: ArcLfuPart_checkGhost_def)
  obtain dec r2 where d: "ArcLruPart_decreaseCapacity (lruPart s) = (dec, r2)"
    by (cases "ArcLruPart_decreaseCapacity (lruPart s)")
  have "dec = (0 < part_capacity (lruPart s))"
    using d ArcLruPart_decreaseCapacity_result [of "lruPart s"] by simp
  then show ?thesis
    by (simp add: checkGhostCaches_def r1 f1 d)
qed

lemma checkGhostCaches_miss:
  assumes "ghostCache (lruPart s) k = None" and "ghostCache (lfuPart s) k = None"
  shows "checkGhostCaches s k = (False, s)"
  using assms
  by (simp add: checkGhostCaches_def ArcLruPart_checkGhost_miss ArcLfuPart_checkGhost_def)

lemma checkGhostCaches_sum:
  "part_capacity (lruPart (snd (checkGhostCaches s k)))
     + part_capacity (lfuPart (snd (checkGhostCaches s k)))
   = part_capacity (lruPart s) + part_capacity (lfuPart s)"
proof (cases "ghostCache (lruPart s) k")
  case (Some n)
  then show ?thesis
    by (simp add: checkGhostCaches_lru_hit ArcLfuPart_decreaseCapacity_eq)
next
  case None
  show ?thesis
  proof (cases "ghostCache (lfuPart s) k")
    case None
    with \<open>ghostCache (lruPart s) k = None\<close> show ?thesis
      by (simp add: checkGhostCaches_miss)
  next
    case (Some n)
    with \<open>ghostCache (lruPart s) k = None\<close> show ?thesis
      by (simp add: checkGhostCaches_lfu_hit ArcLfuPart_increaseCapacity_eq
          ArcLfuPart_checkGhost_def)
  qed
qed

lemma RainArc_put_unfold:
  "RainArc_put s k v =
     (if fst (checkGhostCaches s k)
      then (snd (checkGhostCaches s k))
             \<lparr>lruPart := snd (ArcLruPart_put (lruPart (snd (checkGhostCaches s k))) k v)\<rparr>
      else if part_capacity (lruPart (snd (checkGhostCaches s k))) \<noteq> 0
      then (snd (checkGhostCaches s k))
             \<lparr>lruPart := snd (ArcLruPart_put (lruPart (snd (checkGhostCaches s k))) k v),
              lfuPart := snd (ArcLfuPart_put (lfuPart (snd (checkGhostCaches s k))) k v)\<rparr>
      else (snd (checkGhostCaches s k))
             \<lparr>lruPart := snd (ArcLruPart_put (lruPart (snd (checkGhostCaches s k))) k v)\<rparr>)"
proof -
  obtain g s1 where c: "checkGhostCaches s k = (g, s1)"
    by (cases "checkGhostCaches s k")
  obtain ok r where p: "ArcLruPart_put (lruPart s1) k v = (ok, r)"
    by (cases "ArcLruPart_put (lruPart s1) k v")
  have "ok = (part_capacity (lruPart s1) \<noteq> 0)"
    using p ArcLruPart_put_result [of "lruPart s1" k v] by simp
  then show ?thesis
    by (simp add: RainArc_put_def c p)
qed

lemma RainArc_get_unfold:
  "RainArc_get s k =
     (case findArcNode k (mainList (lruPart (snd (checkGhostCaches s k)))) of
        Some n \<Rightarrow>
          (Some (arc_value n),
           if transformThreshold (lruPart (snd (checkGhostCaches s k))) \<le> arc_accessCount n + 1
           then (snd (checkGhostCaches s k))
                  \<lparr>lruPart := snd (ArcLruPart_get (lruPart (snd (checkGhostCaches s k))) k),
                   lfuPart := snd (ArcLfuPart_put (lfuPart (snd (checkGhostCaches s k))) k
                                     (arc_value n))\<rparr>
           else (snd (checkGhostCaches s k))
                  \<lparr>lruPart := snd (ArcLruPart_get (lruPart (snd (checkGhostCaches s k))) k)\<rparr>)
      | None \<Rightarrow>
          (fst (ArcLfuPart_get (lfuPart (snd (checkGhostCaches s k))) k),
           (snd (checkGhostCaches s k))
             \<lparr>lfuPart := snd (ArcLfuPart_get (lfuPart (snd (checkGhostCaches s k))) k)\<rparr>))"
proof -
  obtain g s1 where c: "checkGhostCaches s k = (g, s1)"
    by (cases "checkGhostCaches s k")
  show ?thesis
  proof (cases "findArcNode k (mainList (lruPart s1))")
    case None
    then show ?thesis
      by (simp add: RainArc_get_def c ArcLruPart_get_def split: prod.splits)
  next
    case (Some n)
    then show ?thesis
      by (simp add: RainArc_get_def c ArcLruPart_get_def ArcLruPart_updateNodeAccess_def Let_def)
  qed
qed

lemma RainArc_put_capacities:
  "part_capacity (lruPart (RainArc_put s k v)) = part_capacity (lruPart (snd (checkGhostCaches s k)))"
  "part_capacity (lfuPart (RainArc_put s k v)) = part_capacity (lfuPart (snd (checkGhostCaches s k)))"
  by (simp_all add: RainArc_put_unfold)

lemma RainArc_get_capacities:
  "part_capacity (lruPart (snd (RainArc_get s k))) = part_capacity (lruPart (snd (checkGhostCaches s k)))"
  "part_capacity (lfuPart (snd (RainArc_get s k))) = part_capacity (lfuPart (snd (checkGhostCaches s k)))"
  by (simp_all add: RainArc_get_unfold split: option.splits)

lemma arc_step_sum:
  "part_capacity (lruPart (arc_step s x)) + part_capacity (lfuPart (arc_step s x))
   = part_capacity (lruPart s) + part_capacity (lfuPart s)"
  by (cases x) (simp_all add: RainArc_put_capacities RainArc_get_capacities checkGhostCaches_sum)

lemma arc_run_sum:
  "part_capacity (lruPart (arc_run s ops)) + part_capacity (lfuPart (arc_run s ops))
   = part_capacity (lruPart s) + part_capacity (lfuPart s)"
  unfolding arc_run_def
  by (induction ops arbitrary: s) (simp_all add: arc_step_sum)

lemma findArcNode_Some: "findArcNode k ns = Some n \<Longrightarrow> n \<in> set ns \<and> arc_key n = k"
  unfolding findArcNode_def by (induction ns) (auto split: if_splits)

lemma findArcNode_None: "findArcNode k ns = None \<longleftrightarrow> k \<notin> arc_key ` set ns"
  unfolding findArcNode_def by (induction ns) auto

lemma findArcNode_Cons_same: "arc_key n = k \<Longrightarrow> findArcNode k (n # ns) = Some n"
  by (simp add: findArcNode_def)











lemmas arc_eval = arc_run_def RainArc_init_def ArcLruPart_init_def ArcLfuPart_init_def
  RainArc_put_def RainArc_get_def checkGhostCaches_def
  ArcLruPart_put_def ArcLruPart_get_def ArcLruPart_checkGhost_def
  ArcLruPart_increaseCapacity_def ArcLruPart_decreaseCapacity_def
  ArcLruPart_updateExistingNode_def ArcLruPart_addNewNode_def ArcLruPart_updateNodeAccess_def
  ArcLruPart_evictLeastRecent_def removeOldestGhost_def addToGhost_def moveToFront_def
  addToFront_def removeFromGhost_def findArcNode_def new_ArcNode_def
  ArcLfuPart_put_def ArcLfuPart_get_def ArcLfuPart_checkGhost_def ArcLfuPart_evict_def
  ArcLfuPart_increaseCapacity_def ArcLfuPart_decreaseCapacity_def


text \<open>
  C2 (as the code has it). A half grows only when \<open>decreaseCapacity\<close> of the other half
  returned true, and that call has then taken one from the other half: the sum of the two
  live capacities is \<open>2 * C\<close> after every sequence of operations.
\<close>

theorem C2_capacity_sum_conserved:
  "part_capacity (lruPart (arc_run (RainArc_init c t) ops))
     + part_capacity (lfuPart (arc_run (RainArc_init c t) ops)) = 2 * c"
  by (simp add: arc_run_sum) (simp add: RainArc_init_def ArcLruPart_init_def ArcLfuPart_init_def)

text \<open>
  C2 (as the claim states it) fails. With \<open>C = 1\<close>, after \<open>put(1); put(2); get(1); put(3);
  put(4)\<close> the frequency half has capacity 0 and key 2 is in the recency ghost map; the
  ghost hit of \<open>get(2)\<close> erases the key and leaves the recency half's capacity at 2: the
  hitting half does not grow, and the sum is still \<open>2 * C\<close>.
\<close>

theorem C2_counterexample:
  "part_capacity (lfuPart (arc_run (RainArc_init 1 2)
      [ArcPut (1::nat) (10::nat), ArcPut 2 20, ArcGet 1, ArcPut 3 30, ArcPut 4 40])) = 0
   \<and> part_capacity (lruPart (arc_run (RainArc_init 1 2)
      [ArcPut (1::nat) (10::nat), ArcPut 2 20, ArcGet 1, ArcPut 3 30, ArcPut 4 40])) = 2
   \<and> ghostCache (lruPart (arc_run (RainArc_init 1 2)
      [ArcPut (1::nat) (10::nat), ArcPut 2 20, ArcGet 1, ArcPut 3 30, ArcPut 4 40])) 2 \<noteq> None
   \<and> ghostCache (lruPart (arc_run (RainArc_init 1 2)
      [ArcPut (1::nat) (10::nat), ArcPut 2 20, ArcGet 1, ArcPut 3 30, ArcPut 4 40, ArcGet 2])) 2
       = None
   \<and> part_capacity (lruPart (arc_run (RainArc_init 1 2)
      [ArcPut (1::nat) (10::nat), ArcPut 2 20, ArcGet 1, ArcPut 3 30, ArcPut 4 40, ArcGet 2])) = 2
   \<and> part_capacity (lfuPart (arc_run (RainArc_init 1 2)
      [ArcPut (1::nat) (10::nat), ArcPut 2 20, ArcGet 1, ArcPut 3 30, ArcPut 4 40, ArcGet 2])) = 0"
  by (simp add: arc_eval Let_def)

subsection \<open>Puts and gets of a key that no ghost holds\<close>

lemma ArcLruPart_put_resident:
  assumes "part_capacity s \<noteq> 0"
  shows "findArcNode k (mainList (snd (ArcLruPart_put s k v))) =
           Some (case findArcNode k (mainList s) of
                   Some n \<Rightarrow> n\<lparr>arc_value := v\<rparr>
                 | None \<Rightarrow> new_ArcNode k v)"
proof (cases "findArcNode k (mainList s)")
  case None
  then show ?thesis using assms
    by (simp add: ArcLruPart_put_def ArcLruPart_addNewNode_def Let_def
        findArcNode_Cons_same new_ArcNode_def)
next
  case (Some n)
  then have "arc_key n = k" by (simp add: findArcNode_Some)
  then show ?thesis using assms Some
    by (simp add: ArcLruPart_put_def ArcLruPart_updateExistingNode_def findArcNode_Cons_same)
qed

lemma ArcLfuPart_put_resident:
  assumes "part_capacity s \<noteq> 0"
  shows "findArcNode k (mainList (snd (ArcLfuPart_put s k v))) =
           Some (case findArcNode k (mainList s) of
                   Some n \<Rightarrow> n\<lparr>arc_value := v, arc_accessCount := arc_accessCount n + 1\<rparr>
                 | None \<Rightarrow> new_ArcNode k v)"
proof (cases "findArcNode k (mainList s)")
  case None
  then show ?thesis using assms
    by (simp add: ArcLfuPart_put_def ArcLfuPart_evict_def Let_def
        findArcNode_Cons_same new_ArcNode_def)
next
  case (Some n)
  then have "arc_key n = k" by (simp add: findArcNode_Some)
  then show ?thesis using assms Some
    by (simp add: ArcLfuPart_put_def Let_def findArcNode_Cons_same)
qed

lemma ArcLruPart_put_disabled: "part_capacity s = 0 \<Longrightarrow> ArcLruPart_put s k v = (False, s)"
  by (simp add: ArcLruPart_put_def)

text \<open>
  C1 (as the code has it). For a key that neither ghost map holds, \<open>put\<close> is the recency
  half's \<open>put\<close>, whose result says whether that half's capacity is non-zero, followed,
  whenever the result is true, by the frequency half's \<open>put\<close>, whatever the access count
  of the key is. The recency half's \<open>put\<close> leaves the access count of a resident key as it
  was and gives a new key the count 1. With both capacities non-zero the key is afterwards
  in both live lists with the value put.
\<close>

theorem C1_put_installs_into_both_halves:
  "ghostCache (lruPart s) k = None \<and> ghostCache (lfuPart s) k = None \<longrightarrow>
     fst (ArcLruPart_put (lruPart s) k v) = (part_capacity (lruPart s) \<noteq> 0)
   \<and> lruPart (RainArc_put s k v) = snd (ArcLruPart_put (lruPart s) k v)
   \<and> lfuPart (RainArc_put s k v) =
       (if part_capacity (lruPart s) \<noteq> 0 then snd (ArcLfuPart_put (lfuPart s) k v)
        else lfuPart s)
   \<and> (part_capacity (lruPart s) \<noteq> 0 \<longrightarrow>
        findArcNode k (mainList (lruPart (RainArc_put s k v))) =
          Some (case findArcNode k (mainList (lruPart s)) of
                  Some n \<Rightarrow> n\<lparr>arc_value := v\<rparr>
                | None \<Rightarrow> new_ArcNode k v))
   \<and> (part_capacity (lruPart s) \<noteq> 0 \<and> part_capacity (lfuPart s) \<noteq> 0 \<longrightarrow>
        findArcNode k (mainList (lfuPart (RainArc_put s k v))) =
          Some (case findArcNode k (mainList (lfuPart s)) of
                  Some n \<Rightarrow> n\<lparr>arc_value := v, arc_accessCount := arc_accessCount n + 1\<rparr>
                | None \<Rightarrow> new_ArcNode k v))"
proof
  assume "ghostCache (lruPart s) k = None \<and> ghostCache (lfuPart s) k = None"
  then have cg: "checkGhostCaches s k = (False, s)"
    by (simp add: checkGhostCaches_miss)
  have r: "lruPart (RainArc_put s k v) = snd (ArcLruPart_put (lruPart s) k v)"
    by (simp add: RainArc_put_unfold cg)
  have f: "lfuPart (RainArc_put s k v) =
       (if part_capacity (lruPart s) \<noteq> 0 then snd (ArcLfuPart_put (lfuPart s) k v)
        else lfuPart s)"
    by (simp add: RainArc_put_unfold cg)
  show "fst (ArcLruPart_put (lruPart s) k v) = (part_capacity (lruPart s) \<noteq> 0)
   \<and> lruPart (RainArc_put s k v) = snd (ArcLruPart_put (lruPart s) k v)
   \<and> lfuPart (RainArc_put s k v) =
       (if part_capacity (lruPart s) \<noteq> 0 then snd (ArcLfuPart_put (lfuPart s) k v)
        else lfuPart s)
   \<and> (part_capacity (lruPart s) \<noteq> 0 \<longrightarrow>
        findArcNode k (mainList (lruPart (RainArc_put s k v))) =
          Some (case findArcNode k (mainList (lruPart s)) of
                  Some n \<Rightarrow> n\<lparr>arc_value := v\<rparr>
                | None \<Rightarrow> new_ArcNode k v))
   \<and> (part_capacity (lruPart s) \<noteq> 0 \<and> part_capacity (lfuPart s) \<noteq> 0 \<longrightarrow>
        findArcNode k (mainList (lfuPart (RainArc_put s k v))) =
          Some (case findArcNode k (mainList (lfuPart s)) of
                  Some n \<Rightarrow> n\<lparr>arc_value := v, arc_accessCount := arc_accessCount n + 1\<rparr>
                | None \<Rightarrow> new_ArcNode k v))"
    unfolding r f
    using ArcLruPart_put_result [of "lruPart s" k v]
      ArcLruPart_put_resident [of "lruPart s" k v]
      ArcLfuPart_put_resident [of "lfuPart s" k v]
    by simp
qed

theorem C1_put_installs_into_both_halves_witness:
  "ghostCache (lruPart (RainArc_init 1 2 :: (nat, nat) RainArc)) 1 = None
   \<and> ghostCache (lfuPart (RainArc_init 1 2 :: (nat, nat) RainArc)) 1 = None
   \<and> fst (ArcLruPart_put (lruPart (RainArc_init 1 2)) (1::nat) (10::nat))
   \<and> findArcNode 1 (mainList (lruPart (RainArc_put (RainArc_init 1 2) (1::nat) (10::nat))))
       = Some (new_ArcNode 1 10)
   \<and> findArcNode 1 (mainList (lfuPart (RainArc_put (RainArc_init 1 2) (1::nat) (10::nat))))
       = Some (new_ArcNode 1 10)"
proof -
  let ?i = "RainArc_init 1 2 :: (nat, nat) RainArc"
  have g: "ghostCache (lruPart ?i) 1 = None" "ghostCache (lfuPart ?i) 1 = None"
    and c: "part_capacity (lruPart ?i) = 1" "part_capacity (lfuPart ?i) = 1"
    and m: "findArcNode 1 (mainList (lruPart ?i)) = None"
      "findArcNode 1 (mainList (lfuPart ?i)) = None"
    by (simp_all add: RainArc_init_def ArcLruPart_init_def ArcLfuPart_init_def findArcNode_def)
  note t = C1_put_installs_into_both_halves [where s = ?i and k = 1 and v = 10, THEN mp,
      OF conjI [OF g]]
  have t1: "fst (ArcLruPart_put (lruPart ?i) 1 10)"
    using t [THEN conjunct1] c by simp
  have t4: "findArcNode 1 (mainList (lruPart (RainArc_put ?i 1 10))) = Some (new_ArcNode 1 10)"
    using t [THEN conjunct2, THEN conjunct2, THEN conjunct2, THEN conjunct1] c m by simp
  have t5: "findArcNode 1 (mainList (lfuPart (RainArc_put ?i 1 10))) = Some (new_ArcNode 1 10)"
    using t [THEN conjunct2, THEN conjunct2, THEN conjunct2, THEN conjunct2] c m by simp
  from g t1 t4 t5 show ?thesis by blast
qed

text \<open>
  C1 (as the claim states it) fails. With \<open>C = 1\<close> and \<open>T = 2\<close>, the put of the brand-new
  key 1 into the empty cache leaves the key in the recency half with access count 1,
  below the threshold, and the frequency half holds the key as well: it has changed.
\<close>

theorem C1_counterexample:
  "ghostCache (lruPart (RainArc_init 1 2 :: (nat, nat) RainArc)) 1 = None
   \<and> ghostCache (lfuPart (RainArc_init 1 2 :: (nat, nat) RainArc)) 1 = None
   \<and> mainList (lruPart (RainArc_init 1 2 :: (nat, nat) RainArc)) = []
   \<and> mainList (lfuPart (RainArc_init 1 2 :: (nat, nat) RainArc)) = []
   \<and> map arc_accessCount (mainList (lruPart (RainArc_put (RainArc_init 1 2) (1::nat) (10::nat))))
       = [1]
   \<and> mainList (lfuPart (RainArc_put (RainArc_init 1 2) (1::nat) (10::nat)))
       = [\<lparr>arc_key = 1, arc_value = 10, arc_accessCount = 1\<rparr>]
   \<and> lfuPart (RainArc_put (RainArc_init 1 2) (1::nat) (10::nat))
       \<noteq> lfuPart (RainArc_init 1 2)"
proof -
  have a: "mainList (lfuPart (RainArc_put (RainArc_init 1 2) (1::nat) (10::nat)))
       = [\<lparr>arc_key = 1, arc_value = 10, arc_accessCount = 1\<rparr>]"
    by (simp add: arc_eval Let_def)
  have b: "mainList (lfuPart (RainArc_init 1 2 :: (nat, nat) RainArc)) = []"
    by (simp add: arc_eval)
  have "lfuPart (RainArc_put (RainArc_init 1 2) (1::nat) (10::nat)) \<noteq> lfuPart (RainArc_init 1 2)"
  proof
    assume "lfuPart (RainArc_put (RainArc_init 1 2) (1::nat) (10::nat)) = lfuPart (RainArc_init 1 2)"
    then have "mainList (lfuPart (RainArc_put (RainArc_init 1 2) (1::nat) (10::nat)))
               = mainList (lfuPart (RainArc_init 1 2 :: (nat, nat) RainArc))"
      by simp
    then show False unfolding a b by simp
  qed
  moreover have "ghostCache (lruPart (RainArc_init 1 2 :: (nat, nat) RainArc)) 1 = None"
    "ghostCache (lfuPart (RainArc_init 1 2 :: (nat, nat) RainArc)) 1 = None"
    "mainList (lruPart (RainArc_init 1 2 :: (nat, nat) RainArc)) = []"
    "map arc_accessCount (mainList (lruPart (RainArc_put (RainArc_init 1 2) (1::nat) (10::nat))))
       = [1]"
    by (simp_all add: arc_eval Let_def)
  ultimately show ?thesis using a b by blast
qed

subsection \<open>A hit in the recency half\<close>

lemma ArcLruPart_get_hit:
  assumes "findArcNode k (mainList s) = Some n"
  shows "ArcLruPart_get s k =
           (Some (arc_value n, transformThreshold s \<le> arc_accessCount n + 1),
            moveToFront (n\<lparr>arc_accessCount := arc_accessCount n + 1\<rparr>) s)"
  using assms by (simp add: ArcLruPart_get_def ArcLruPart_updateNodeAccess_def Let_def)








subsection \<open>Sizes of the live lists\<close>

lemma length_unlinkNode:
  "arc_key n \<in> arc_key ` set ns \<Longrightarrow> Suc (length (unlinkNode n ns)) = length ns"
  by (induction ns) auto

lemma moveToFront_length:
  assumes "findArcNode k (mainList s) = Some n" and "arc_key n' = k"
  shows "length (mainList (moveToFront n' s)) = length (mainList s)"
proof -
  from findArcNode_Some [OF assms(1)] have "n \<in> set (mainList s)" and "arc_key n = k"
    by simp_all
  then have "arc_key n' \<in> arc_key ` set (mainList s)"
    using assms(2) by (metis imageI)
  then show ?thesis by (simp add: length_unlinkNode)
qed

lemma ArcLruPart_put_main_bounded:
  assumes "length (mainList s) \<le> part_capacity s"
  shows "length (mainList (snd (ArcLruPart_put s k v))) \<le> part_capacity s"
proof (cases "part_capacity s = 0")
  case True
  then show ?thesis using assms by (simp add: ArcLruPart_put_def)
next
  case False
  show ?thesis
  proof (cases "findArcNode k (mainList s)")
    case None
    then show ?thesis using assms False
      by (cases "mainList s = []")
         (auto simp: ArcLruPart_put_def ArcLruPart_addNewNode_def Let_def)
  next
    case (Some n)
    have "arc_key (n\<lparr>arc_value := v\<rparr>) = k" using Some by (simp add: findArcNode_Some)
    from moveToFront_length [OF Some this] show ?thesis using assms False Some
      by (simp add: ArcLruPart_put_def ArcLruPart_updateExistingNode_def)
  qed
qed

lemma ArcLruPart_get_main_length:
  "length (mainList (snd (ArcLruPart_get s k))) = length (mainList s)"
proof (cases "findArcNode k (mainList s)")
  case None
  then show ?thesis by (simp add: ArcLruPart_get_def)
next
  case (Some n)
  have "arc_key (n\<lparr>arc_accessCount := arc_accessCount n + 1\<rparr>) = k"
    using Some by (simp add: findArcNode_Some)
  from moveToFront_length [OF Some this] show ?thesis using Some
    by (simp add: ArcLruPart_get_hit)
qed

lemma ArcLfuPart_put_main_bounded:
  assumes "length (mainList s) \<le> part_capacity s"
  shows "length (mainList (snd (ArcLfuPart_put s k v))) \<le> part_capacity s"
proof (cases "part_capacity s = 0")
  case True
  then show ?thesis using assms by (simp add: ArcLfuPart_put_def)
next
  case False
  show ?thesis
  proof (cases "findArcNode k (mainList s)")
    case None
    then show ?thesis using assms False
      by (cases "mainList s = []")
         (auto simp: ArcLfuPart_put_def ArcLfuPart_evict_def Let_def)
  next
    case (Some n)
    have "arc_key (n\<lparr>arc_value := v, arc_accessCount := arc_accessCount n + 1\<rparr>) = k"
      using Some by (simp add: findArcNode_Some)
    from moveToFront_length [OF Some this] show ?thesis using assms False Some
      by (simp add: ArcLfuPart_put_def Let_def)
  qed
qed

lemma ArcLfuPart_get_main_length:
  "length (mainList (snd (ArcLfuPart_get s k))) = length (mainList s)"
proof (cases "findArcNode k (mainList s)")
  case None
  then show ?thesis by (simp add: ArcLfuPart_get_def)
next
  case (Some n)
  have "arc_key (n\<lparr>arc_accessCount := arc_accessCount n + 1\<rparr>) = k"
    using Some by (simp add: findArcNode_Some)
  from moveToFront_length [OF Some this] show ?thesis using Some
    by (simp add: ArcLfuPart_get_def)
qed

lemma ArcLruPart_decreaseCapacity_main_bounded:
  assumes "length (mainList s) \<le> part_capacity s"
  shows "length (mainList (snd (ArcLruPart_decreaseCapacity s)))
           \<le> part_capacity (snd (ArcLruPart_decreaseCapacity s))"
  using assms by (auto simp: ArcLruPart_decreaseCapacity_def Let_def)

lemma checkGhostCaches_main_bounded:
  assumes "main_bounded s"
  shows "main_bounded (snd (checkGhostCaches s k))"
proof (cases "ghostCache (lruPart s) k")
  case (Some n)
  then show ?thesis
    using assms ArcLruPart_decreaseCapacity_main_bounded [of "lfuPart s"]
    by (simp add: main_bounded_def checkGhostCaches_lru_hit ArcLfuPart_decreaseCapacity_eq
        ArcLruPart_decreaseCapacity_result [symmetric])
next
  case None
  show ?thesis
  proof (cases "ghostCache (lfuPart s) k")
    case None
    with \<open>ghostCache (lruPart s) k = None\<close> assms show ?thesis
      by (simp add: checkGhostCaches_miss)
  next
    case (Some n)
    with \<open>ghostCache (lruPart s) k = None\<close> show ?thesis
      using assms ArcLruPart_decreaseCapacity_main_bounded [of "lruPart s"]
      by (simp add: main_bounded_def checkGhostCaches_lfu_hit ArcLfuPart_increaseCapacity_eq
          ArcLfuPart_checkGhost_def)
  qed
qed

lemma arc_step_main_bounded:
  assumes "main_bounded s"
  shows "main_bounded (arc_step s x)"
proof -
  have 1: "\<And>k. main_bounded (snd (checkGhostCaches s k))"
    using assms by (rule checkGhostCaches_main_bounded)
  show ?thesis
  proof (cases x)
    case (ArcPut k v)
    from 1 [of k] show ?thesis
      using ArcLruPart_put_main_bounded [of "lruPart (snd (checkGhostCaches s k))" k v]
        ArcLfuPart_put_main_bounded [of "lfuPart (snd (checkGhostCaches s k))" k v]
      by (auto simp: ArcPut main_bounded_def RainArc_put_unfold)
  next
    case (ArcGet k)
    from 1 [of k] show ?thesis
      using ArcLfuPart_put_main_bounded [of "lfuPart (snd (checkGhostCaches s k))" k]
      by (auto simp: ArcGet main_bounded_def RainArc_get_unfold ArcLruPart_get_main_length
          ArcLfuPart_get_main_length split: option.splits)
  qed
qed

lemma arc_run_main_bounded:
  "length (mainList (lruPart (arc_run (RainArc_init c t) ops)))
     \<le> part_capacity (lruPart (arc_run (RainArc_init c t) ops))
   \<and> length (mainList (lfuPart (arc_run (RainArc_init c t) ops)))
     \<le> part_capacity (lfuPart (arc_run (RainArc_init c t) ops))"
proof -
  have "main_bounded s \<Longrightarrow> main_bounded (arc_run s ops)" for s :: "('a, 'b) RainArc"
    unfolding arc_run_def
    by (induction ops arbitrary: s) (simp_all add: arc_step_main_bounded)
  moreover have "main_bounded (RainArc_init c t :: ('a, 'b) RainArc)"
    by (simp add: main_bounded_def RainArc_init_def ArcLruPart_init_def ArcLfuPart_init_def)
  ultimately show ?thesis unfolding main_bounded_def by blast
qed

text \<open>
  C7, the part that fails. With \<open>C = 2\<close>, the ghost check of \<open>put(2)\<close> (a hit in the
  frequency ghost) makes \<open>decreaseCapacity\<close> evict key 2 from the recency live list into
  the recency ghost, and the same \<open>put\<close> then adds key 2 to the live list again; the same
  happens to key 1. When key 1 is evicted once more while it is still a ghost,
  \<open>addToGhost\<close> assigns over its map entry and the chain holds two nodes of key 1 for one
  map entry. \<open>removeOldestGhost\<close> then erases key 1 with the first of them, and erases
  nothing with the second, so the map is not made smaller before the next key is added:
  after the ten puts the recency ghost map holds three keys with a ghost capacity of 2.
\<close>

theorem C7_ghost_map_exceeds_ghost_capacity:
  "map arc_key (ghostList (lruPart (arc_run (RainArc_init 2 2)
      [ArcPut (1::nat) (10::nat), ArcPut 2 20, ArcPut 3 30, ArcPut 1 10, ArcPut 2 20,
       ArcPut 1 10, ArcPut 2 20, ArcPut 4 40]))) = [1, 1]
   \<and> dom (ghostCache (lruPart (arc_run (RainArc_init 2 2)
      [ArcPut (1::nat) (10::nat), ArcPut 2 20, ArcPut 3 30, ArcPut 1 10, ArcPut 2 20,
       ArcPut 1 10, ArcPut 2 20, ArcPut 4 40]))) = {1}
   \<and> ghostCapacity (lruPart (arc_run (RainArc_init 2 2)
      [ArcPut (1::nat) (10::nat), ArcPut 2 20, ArcPut 3 30, ArcPut 1 10, ArcPut 2 20,
       ArcPut 1 10, ArcPut 2 20, ArcPut 4 40, ArcPut 5 50, ArcPut 3 30])) = 2
   \<and> dom (ghostCache (lruPart (arc_run (RainArc_init 2 2)
      [ArcPut (1::nat) (10::nat), ArcPut 2 20, ArcPut 3 30, ArcPut 1 10, ArcPut 2 20,
       ArcPut 1 10, ArcPut 2 20, ArcPut 4 40, ArcPut 5 50, ArcPut 3 30]))) = {2, 4, 5}
   \<and> card (dom (ghostCache (lruPart (arc_run (RainArc_init 2 2)
      [ArcPut (1::nat) (10::nat), ArcPut 2 20, ArcPut 3 30, ArcPut 1 10, ArcPut 2 20,
       ArcPut 1 10, ArcPut 2 20, ArcPut 4 40, ArcPut 5 50, ArcPut 3 30])))) = 3"
proof -
  have a: "map arc_key (ghostList (lruPart (arc_run (RainArc_init 2 2)
      [ArcPut (1::nat) (10::nat), ArcPut 2 20, ArcPut 3 30, ArcPut 1 10, ArcPut 2 20,
       ArcPut 1 10, ArcPut 2 20, ArcPut 4 40]))) = [1, 1]"
    by (simp add: arc_eval Let_def)
  have b: "dom (ghostCache (lruPart (arc_run (RainArc_init 2 2)
      [ArcPut (1::nat) (10::nat), ArcPut 2 20, ArcPut 3 30, ArcPut 1 10, ArcPut 2 20,
       ArcPut 1 10, ArcPut 2 20, ArcPut 4 40]))) = {1}"
    by (simp add: arc_eval Let_def)
  have c: "ghostCapacity (lruPart (arc_run (RainArc_init 2 2)
      [ArcPut (1::nat) (10::nat), ArcPut 2 20, ArcPut 3 30, ArcPut 1 10, ArcPut 2 20,
       ArcPut 1 10, ArcPut 2 20, ArcPut 4 40, ArcPut 5 50, ArcPut 3 30])) = 2"
    by (simp add: arc_eval Let_def)
  have d: "dom (ghostCache (lruPart (arc_run (RainArc_init 2 2)
      [ArcPut (1::nat) (10::nat), ArcPut 2 20, ArcPut 3 30, ArcPut 1 10, ArcPut 2 20,
       ArcPut 1 10, ArcPut 2 20, ArcPut 4 40, ArcPut 5 50, ArcPut 3 30]))) = {2, 4, 5}"
    by (auto simp add: arc_eval Let_def)
  have e: "card (dom (ghostCache (lruPart (arc_run (RainArc_init 2 2)
      [ArcPut (1::nat) (10::nat), ArcPut 2 20, ArcPut 3 30, ArcPut 1 10, ArcPut 2 20,
       ArcPut 1 10, ArcPut 2 20, ArcPut 4 40, ArcPut 5 50, ArcPut 3 30])))) = 3"
    unfolding d by simp
  from a b c d e show ?thesis by blast
qed






subsection \<open>Slices\<close>






lemmas hash_eval = RainLruHash_init_def RainLruHash_put_def hash_run_def resident_def
  sliceSize_def int_of_size_t_def size_t_of_int_def RainLru_init_def RainLru_put_def
  addNewNode_def updateExistingNode_def evictLeastRecent_def moveToMostRecent_def
  insertNode_def findNode_def new_LruNode_def


section \<open>A get that misses\<close>






section \<open>The representation of a half is kept by every operation\<close>

lemma keys_unlinkNode: "map arc_key (unlinkNode n ns) = remove1 (arc_key n) (map arc_key ns)"
  by (induction ns) auto

lemma findArcNode_unlinkNode_other:
  "k \<noteq> arc_key n \<Longrightarrow> findArcNode k (unlinkNode n ns) = findArcNode k ns"
  unfolding findArcNode_def by (induction ns) simp_all

lemma findArcNode_snoc_other:
  "arc_key l \<noteq> k \<Longrightarrow> findArcNode k (ns @ [l]) = findArcNode k ns"
  unfolding findArcNode_def by (induction ns) simp_all

lemma findArcNode_butlast:
  assumes "ns \<noteq> []" and "arc_key (last ns) \<noteq> k"
  shows "findArcNode k (butlast ns) = findArcNode k ns"
proof -
  have "findArcNode k (butlast ns @ [last ns]) = findArcNode k (butlast ns)"
    using assms(2) by (rule findArcNode_snoc_other)
  then show ?thesis using assms(1) by simp
qed

lemma findArcNode_Cons_other:
  "arc_key n \<noteq> k \<Longrightarrow> findArcNode k (n # ns) = findArcNode k ns"
  by (simp add: findArcNode_def)

lemma addToGhost_wf:
  assumes "part_wf s"
  shows "part_wf (addToGhost n s)"
  using assms
  by (auto simp: part_wf_def addToGhost_def Let_def findArcNode_Cons_same findArcNode_Cons_other)

lemma removeOldestGhost_wf:
  assumes "part_wf s"
  shows "part_wf (removeOldestGhost s)"
proof (cases "ghostList s = []")
  case True
  then show ?thesis using assms by (simp add: removeOldestGhost_def)
next
  case False
  have "findArcNode k (butlast (ghostList s)) = Some n"
    if "k \<noteq> arc_key (last (ghostList s))" and "ghostCache s k = Some n" for k n
    using that assms False by (simp add: part_wf_def findArcNode_butlast)
  then show ?thesis using assms False
    by (auto simp: part_wf_def removeOldestGhost_def Let_def)
qed

lemma evict_wf:
  assumes "part_wf s"
  shows "part_wf (ArcLruPart_evictLeastRecent s)"
proof (cases "mainList s = []")
  case True
  then show ?thesis using assms by (simp add: ArcLruPart_evictLeastRecent_def)
next
  case False
  let ?s1 = "s\<lparr>mainList := butlast (mainList s)\<rparr>"
  have "distinct (map arc_key (butlast (mainList s)))"
    using assms by (simp add: part_wf_def map_butlast distinct_butlast)
  then have 1: "part_wf ?s1" using assms by (simp add: part_wf_def)
  then have 2: "part_wf (if ghostCapacity ?s1 \<le> card (dom (ghostCache ?s1))
                         then removeOldestGhost ?s1 else ?s1)"
    by (simp add: removeOldestGhost_wf)
  show ?thesis
    using False addToGhost_wf [OF 2]
    by (simp add: ArcLruPart_evictLeastRecent_def Let_def)
qed

lemma moveToFront_wf:
  assumes "part_wf s"
  shows "part_wf (moveToFront n s)"
  using assms by (simp add: part_wf_def keys_unlinkNode)

lemma addToFront_wf:
  assumes "part_wf s" and "findArcNode (arc_key n) (mainList s) = None"
  shows "part_wf (addToFront n s)"
  using assms by (auto simp: part_wf_def findArcNode_None)

lemma evict_keeps_absent:
  "findArcNode k (mainList s) = None \<Longrightarrow>
   findArcNode k (mainList (ArcLruPart_evictLeastRecent s)) = None"
  by (auto simp: findArcNode_None dest: in_set_butlastD)

lemma addNew_wf:
  assumes "part_wf s" and "findArcNode k (mainList s) = None"
  shows "part_wf (addToFront (new_ArcNode k v)
           (if part_capacity s \<le> length (mainList s)
            then ArcLruPart_evictLeastRecent s else s))"
proof (cases "part_capacity s \<le> length (mainList s)")
  case True
  have "findArcNode (arc_key (new_ArcNode k v)) (mainList (ArcLruPart_evictLeastRecent s)) = None"
    using evict_keeps_absent [OF assms(2)] by (simp add: new_ArcNode_def)
  from addToFront_wf [OF evict_wf [OF assms(1)] this] True show ?thesis by simp
next
  case False
  have "findArcNode (arc_key (new_ArcNode k v)) (mainList s) = None"
    using assms(2) by (simp add: new_ArcNode_def)
  from addToFront_wf [OF assms(1) this] False show ?thesis by simp
qed

lemma ArcLruPart_put_wf:
  assumes "part_wf s"
  shows "part_wf (snd (ArcLruPart_put s k v))"
proof (cases "findArcNode k (mainList s)")
  case None
  from addNew_wf [OF assms None, of v] show ?thesis using assms None
    by (simp add: ArcLruPart_put_def ArcLruPart_addNewNode_def Let_def)
next
  case (Some n)
  then show ?thesis using assms
    by (simp add: ArcLruPart_put_def ArcLruPart_updateExistingNode_def moveToFront_wf)
qed

lemma ArcLfuPart_put_wf:
  assumes "part_wf s"
  shows "part_wf (snd (ArcLfuPart_put s k v))"
proof (cases "findArcNode k (mainList s)")
  case None
  from addNew_wf [OF assms None, of v] show ?thesis using assms None
    by (auto simp: ArcLfuPart_put_def ArcLfuPart_evict_def Let_def split: if_splits)
next
  case (Some n)
  then show ?thesis using assms
    by (simp add: ArcLfuPart_put_def Let_def moveToFront_wf)
qed

lemma ArcLruPart_get_wf:
  assumes "part_wf s"
  shows "part_wf (snd (ArcLruPart_get s k))"
  using assms
  by (cases "findArcNode k (mainList s)")
     (simp_all add: ArcLruPart_get_def ArcLruPart_updateNodeAccess_def Let_def moveToFront_wf)

lemma ArcLfuPart_get_wf:
  assumes "part_wf s"
  shows "part_wf (snd (ArcLfuPart_get s k))"
  using assms
  by (cases "findArcNode k (mainList s)") (simp_all add: ArcLfuPart_get_def moveToFront_wf)

lemma ArcLruPart_checkGhost_wf:
  assumes "part_wf s"
  shows "part_wf (snd (ArcLruPart_checkGhost s k))"
proof (cases "ghostCache s k")
  case None
  then show ?thesis using assms by (simp add: ArcLruPart_checkGhost_def)
next
  case (Some n)
  then have "findArcNode k (ghostList s) = Some n" using assms by (simp add: part_wf_def)
  then have key: "arc_key n = k" by (simp add: findArcNode_Some)
  have "findArcNode j (unlinkNode n (ghostList s)) = Some m"
    if "j \<noteq> k" and "ghostCache s j = Some m" for j m
    using that assms key by (simp add: part_wf_def findArcNode_unlinkNode_other)
  then show ?thesis using assms Some
    by (auto simp: part_wf_def ArcLruPart_checkGhost_def removeFromGhost_def)
qed

lemma ArcLruPart_decreaseCapacity_wf:
  assumes "part_wf s"
  shows "part_wf (snd (ArcLruPart_decreaseCapacity s))"
proof -
  have "part_wf (if length (mainList s) = part_capacity s
                 then ArcLruPart_evictLeastRecent s else s)"
    using assms by (simp add: evict_wf)
  then show ?thesis using assms
    by (simp add: ArcLruPart_decreaseCapacity_def Let_def part_wf_def)
qed

lemma ArcLruPart_increaseCapacity_wf:
  "part_wf s \<Longrightarrow> part_wf (ArcLruPart_increaseCapacity s)"
  by (simp add: part_wf_def)

lemma checkGhostCaches_wf:
  assumes "part_wf (lruPart s)" and "part_wf (lfuPart s)"
  shows "part_wf (lruPart (snd (checkGhostCaches s k)))
       \<and> part_wf (lfuPart (snd (checkGhostCaches s k)))"
proof (cases "ghostCache (lruPart s) k")
  case (Some n)
  then show ?thesis
    using ArcLruPart_checkGhost_wf [OF assms(1), of k]
      ArcLruPart_decreaseCapacity_wf [OF assms(2)]
    by (simp add: checkGhostCaches_lru_hit ArcLfuPart_decreaseCapacity_eq
        ArcLruPart_increaseCapacity_wf)
next
  case None
  show ?thesis
  proof (cases "ghostCache (lfuPart s) k")
    case None
    with \<open>ghostCache (lruPart s) k = None\<close> assms show ?thesis
      by (simp add: checkGhostCaches_miss)
  next
    case (Some n)
    with \<open>ghostCache (lruPart s) k = None\<close> show ?thesis
      using ArcLruPart_checkGhost_wf [OF assms(2), of k]
        ArcLruPart_decreaseCapacity_wf [OF assms(1)]
      by (simp add: checkGhostCaches_lfu_hit ArcLfuPart_increaseCapacity_eq
          ArcLfuPart_checkGhost_def ArcLruPart_increaseCapacity_wf)
  qed
qed

lemma arc_step_wf:
  assumes "part_wf (lruPart s)" and "part_wf (lfuPart s)"
  shows "part_wf (lruPart (arc_step s x)) \<and> part_wf (lfuPart (arc_step s x))"
proof -
  have 1: "\<And>k. part_wf (lruPart (snd (checkGhostCaches s k)))"
    and 2: "\<And>k. part_wf (lfuPart (snd (checkGhostCaches s k)))"
    using checkGhostCaches_wf [OF assms] by simp_all
  show ?thesis
  proof (cases x)
    case (ArcPut k v)
    then show ?thesis
      using ArcLruPart_put_wf [OF 1 [of k], of k v] ArcLfuPart_put_wf [OF 2 [of k], of k v] 2 [of k]
      by (simp add: RainArc_put_unfold)
  next
    case (ArcGet k)
    then show ?thesis
      using ArcLruPart_get_wf [OF 1 [of k], of k] ArcLfuPart_put_wf [OF 2 [of k], of k]
        ArcLfuPart_get_wf [OF 2 [of k], of k] 1 [of k] 2 [of k]
      by (simp add: RainArc_get_unfold split: option.splits)
  qed
qed

lemma arc_run_wf:
  "part_wf (lruPart (arc_run (RainArc_init c t) ops))
   \<and> part_wf (lfuPart (arc_run (RainArc_init c t) ops))"
proof -
  have "part_wf (lruPart s) \<and> part_wf (lfuPart s) \<Longrightarrow>
        part_wf (lruPart (arc_run s ops)) \<and> part_wf (lfuPart (arc_run s ops))"
    for s :: "('a, 'b) RainArc"
    unfolding arc_run_def
  proof (induction ops arbitrary: s)
    case Nil
    then show ?case by simp
  next
    case (Cons x xs)
    have "part_wf (lruPart (arc_step s x)) \<and> part_wf (lfuPart (arc_step s x))"
      using Cons.prems by (simp add: arc_step_wf)
    from Cons.IH [OF this] show ?case by simp
  qed
  moreover have "part_wf (lruPart (RainArc_init c t :: ('a, 'b) RainArc))
               \<and> part_wf (lfuPart (RainArc_init c t :: ('a, 'b) RainArc))"
    by (simp add: part_wf_def RainArc_init_def ArcLruPart_init_def ArcLfuPart_init_def)
  ultimately show ?thesis by blast
qed

end
